theory Spec2Isabelle
  imports Complex_Main
begin

section \<open>The sensors system of ign-gazebo (src/systems/sensors/Sensors.cc)\<close>

text \<open>
  The system couples the simulation thread, which calls \<open>PostUpdate\<close> once per step, to a
  render thread running \<open>RunLoop\<close>. The first part of this theory embeds the sequential
  pieces (the per-step selection loop, the masking loop of the render thread and
  \<open>CreateSensor\<close>); the second part embeds the two threads, \<open>Stop\<close> and the condition
  variable as a labelled step function on the shared state.

  Conventions of the embedding.
  \<^item> A value of \<open>ignition::common::Time\<close> is a rational number of seconds (its values
    are whole nanoseconds, which add and compare exactly as rationals; the int32 range of
    its fields is not modelled), and a \<open>double\<close> update rate is a rational. The
    conversion of a \<open>double\<close> into \<open>common::Time\<close> belongs to ign-common: what it
    makes of \<open>0.9 / rate\<close> at line 165 is a parameter of the masking loop.
  \<^item> A pointer is an \<open>option\<close>; reading through it is \<open>deref\<close>, which faults on
    \<open>nullptr\<close>.
  \<^item> \<open>std::set<SensorId>\<close> is a strictly ascending list (its iteration order);
    \<open>std::map\<close> is a partial function.
\<close>

subsection \<open>Data\<close>

type_synonym SensorId = nat
type_synonym Time = rat
type_synonym Scene = nat

text \<open>\<open>sensors::NO_SENSOR\<close> of ign-sensors, the id of no sensor.\<close>

definition NO_SENSOR :: SensorId where
  "NO_SENSOR = 0"

text \<open>
  A sensor object owned by \<open>sensors::Manager\<close>. \<open>isRendering\<close> says whether its
  dynamic type derives from \<open>sensors::RenderingSensor\<close>; the last three fields are what
  \<open>SetScene\<close>, \<open>SetParent\<close> and \<open>SetManualSceneUpdate\<close> write.
\<close>

record Sensor =
  Id_of :: SensorId
  Name_of :: string
  UpdateRate :: rat
  NextUpdateTime :: Time
  isRendering :: bool
  Scene_of :: "Scene option"
  Parent_of :: string
  ManualSceneUpdate :: bool

datatype fault = NullPointerDereference

definition deref :: "'a option \<Rightarrow> fault + 'a" where
  "deref p = (case p of None \<Rightarrow> Inl NullPointerDereference | Some x \<Rightarrow> Inr x)"

text \<open>\<open>dynamic_cast<sensors::RenderingSensor *>(s)\<close>: null for a null or foreign object.\<close>

definition dynamic_cast :: "Sensor option \<Rightarrow> Sensor option" where
  "dynamic_cast s = (case s of None \<Rightarrow> None
                     | Some x \<Rightarrow> if isRendering x then Some x else None)"

subsection \<open>The selection loop of PostUpdate (lines 244 to 272)\<close>

text \<open>
  One iteration of \<open>for (auto id : sensorIds)\<close>. The state of the loop is the local
  vector \<open>activeSensors\<close> and the member \<open>sensorMask\<close>. \<open>continue\<close> leaves both as
  they are; \<open>rs && rs->NextUpdateTime() <= t\<close> reads through \<open>rs\<close> only when it
  is not null.
\<close>

definition select_body ::
  "Time \<Rightarrow> (SensorId \<rightharpoonup> Sensor) \<Rightarrow> SensorId \<Rightarrow>
   Sensor list \<times> (SensorId \<rightharpoonup> Time) \<Rightarrow> fault + Sensor list \<times> (SensorId \<rightharpoonup> Time)" where
  "select_body t mgr i st =
     (let (active, smask) = st;
          s = mgr i;
          rs = dynamic_cast s;
          unmasked = (case smask i of
                        None \<Rightarrow> Some smask
                      | Some until \<Rightarrow> if until \<le> t then Some (smask(i := None)) else None)
      in case unmasked of
           None \<Rightarrow> Inr (active, smask)
         | Some smask' \<Rightarrow>
             if rs \<noteq> None then
               (case deref rs of
                  Inl f \<Rightarrow> Inl f
                | Inr r \<Rightarrow> if NextUpdateTime r \<le> t then Inr (active @ [r], smask')
                           else Inr (active, smask'))
             else Inr (active, smask'))"

fun select_loop ::
  "Time \<Rightarrow> (SensorId \<rightharpoonup> Sensor) \<Rightarrow> SensorId list \<Rightarrow>
   Sensor list \<times> (SensorId \<rightharpoonup> Time) \<Rightarrow> fault + Sensor list \<times> (SensorId \<rightharpoonup> Time)" where
  "select_loop t mgr [] st = Inr st"
| "select_loop t mgr (i # ids) st =
     (case select_body t mgr i st of
        Inl f \<Rightarrow> Inl f
      | Inr st' \<Rightarrow> select_loop t mgr ids st')"

definition PostUpdate_select ::
  "Time \<Rightarrow> (SensorId \<rightharpoonup> Sensor) \<Rightarrow> SensorId list \<Rightarrow> (SensorId \<rightharpoonup> Time) \<Rightarrow>
   fault + Sensor list \<times> (SensorId \<rightharpoonup> Time)" where
  "PostUpdate_select t mgr ids smask = select_loop t mgr ids ([], smask)"

subsection \<open>The masking loop of RunLoop (lines 162 to 169)\<close>

text \<open>
  \<open>delta rate\<close> is the value of \<open>ignition::common::Time delta(0.9 / rate)\<close> of line
  165: the quotient is a \<open>double\<close>, and \<open>common::Time\<close> keeps int32 seconds and
  nanoseconds, so for a rate other than 0 it is about, and in general not exactly,
  \<open>0.9 / rate\<close>. For the rate 0 the quotient is an infinity and \<open>delta 0\<close> is
  whatever the conversion makes of it. The loop has no test of the rate and no way to
  fail: it writes an entry for every sensor of the list.
\<close>

fun RunLoop_mask ::
  "(rat \<Rightarrow> Time) \<Rightarrow> Time \<Rightarrow> Sensor list \<Rightarrow> (SensorId \<rightharpoonup> Time) \<Rightarrow> (SensorId \<rightharpoonup> Time)" where
  "RunLoop_mask delta updTime [] smask = smask"
| "RunLoop_mask delta updTime (sensor # rest) smask =
     RunLoop_mask delta updTime rest
       (smask(Id_of sensor \<mapsto> updTime + delta (UpdateRate sensor)))"

subsection \<open>CreateSensor (lines 296 to 324)\<close>

text \<open>
  \<open>sdf::SensorType\<close> and \<open>sdf::Sensor\<close> belong to sdformat; the code reads the type
  (compared with \<open>NONE\<close> only) and the name.
\<close>

datatype SensorType =
  NONE | ALTIMETER | CAMERA | CONTACT | DEPTH_CAMERA | GPU_LIDAR | IMU | LIDAR
  | MAGNETOMETER | RGBD_CAMERA

record sdf_Sensor =
  sdf_Type :: SensorType
  sdf_Name :: string

text \<open>The members of \<open>SensorsPrivate\<close>; \<open>errlog\<close> collects what is sent to \<open>ignerr\<close>.\<close>

record SensorsPrivate =
  sensorManager :: "SensorId \<rightharpoonup> Sensor"
  initialized :: bool
  sensorIds :: "SensorId list"
  scene :: "Scene option"
  running :: bool
  doInit :: bool
  updateAvailable :: bool
  updateTime :: Time
  activeSensors :: "Sensor list"
  sensorMask :: "SensorId \<rightharpoonup> Time"
  errlog :: "string list"

text \<open>
  Modelled from the spec: \<open>sensors::Manager::CreateSensor\<close> is not part of the sources.
  The spec gives the sensor manager \<open>CreateSensor(descriptor) \<rightarrow> id\<close> and
  \<open>Sensor(id) \<rightarrow> handle-or-null\<close>. Its answer to one call is the pair \<open>made\<close>: the id
  it returns and the object it has stored under that id, if any.
\<close>

definition Manager_CreateSensor ::
  "SensorId \<times> Sensor option \<Rightarrow> (SensorId \<rightharpoonup> Sensor) \<Rightarrow> (SensorId \<rightharpoonup> Sensor)" where
  "Manager_CreateSensor made mgr =
     (case snd made of None \<Rightarrow> mgr | Some s \<Rightarrow> mgr(fst made \<mapsto> s))"

text \<open>
  The result is \<open>Inr (name, state)\<close> on return and \<open>Inl (fault, state)\<close> when a null
  pointer is read, with the state as it was at the fault. The object behind \<open>sensor\<close> and
  \<open>renderingSensor\<close> is the one stored under \<open>sensorId\<close>; the three setters write it
  there.
\<close>

definition CreateSensor ::
  "sdf_Sensor \<Rightarrow> string \<Rightarrow> SensorId \<times> Sensor option \<Rightarrow> 'a SensorsPrivate_scheme \<Rightarrow>
   (fault \<times> 'a SensorsPrivate_scheme) + (string \<times> 'a SensorsPrivate_scheme)" where
  "CreateSensor sdf parentName made d =
     (if sdf_Type sdf = NONE then
        Inr ([], d\<lparr>errlog := errlog d @
                      [''Unable to create sensor. SDF sensor type is NONE.'']\<rparr>)
      else
        let d1 = d\<lparr>sensorManager := Manager_CreateSensor made (sensorManager d)\<rparr>;
            sensorId = fst made;
            sensor = sensorManager d1 sensorId;
            d2 = d1\<lparr>sensorIds := insort_insert sensorId (sensorIds d1)\<rparr>;
            d3 = (if (case sensor of None \<Rightarrow> True | Some s \<Rightarrow> NO_SENSOR = Id_of s)
                  then d2\<lparr>errlog := errlog d2 @
                              [''Failed to create sensor ['' @ sdf_Name sdf @ '']'']\<rparr>
                  else d2);
            renderingSensor = dynamic_cast sensor
        in case deref renderingSensor of
             Inl f \<Rightarrow> Inl (f, d3)
           | Inr rs \<Rightarrow>
               let rs' = rs\<lparr>Scene_of := scene d3, Parent_of := parentName,
                            ManualSceneUpdate := True\<rparr>;
                   d4 = d3\<lparr>sensorManager := (sensorManager d3)(sensorId \<mapsto> rs')\<rparr>
               in (case deref (sensorManager d4 sensorId) of
                     Inl f \<Rightarrow> Inl (f, d4)
                   | Inr s \<Rightarrow> Inr (Name_of s, d4)))"

section \<open>The two threads\<close>

text \<open>
  The shared state is \<open>SensorsPrivate\<close>; each thread adds a program counter and its
  local variables. A step is one action of one thread: everything a thread does while it
  holds \<open>renderMutex\<close> without waiting is one step or a run of consecutive steps during
  which no other thread can take the mutex. \<open>renderCv.wait\<close> releases the mutex and
  puts the thread into the wait set, which it leaves only by a notification or by a
  spurious wake-up (an action of its own, which the C++ standard allows and never
  promises). The history variables \<open>renderInits\<close>, \<open>sawRendering\<close>, \<open>submitted\<close> and
  \<open>consumed\<close> are written and never read by the actions.
\<close>

datatype thread = Producer | Worker

datatype producer_pc =
    P_idle              \<comment> \<open>outside \<open>PostUpdate\<close>\<close>
  | P_init_lock         \<comment> \<open>line 228, about to lock and test the predicate of line 229\<close>
  | P_init_waiting      \<comment> \<open>in the wait set at line 229\<close>
  | P_init_notify       \<comment> \<open>line 233\<close>
  | P_check             \<comment> \<open>line 237\<close>
  | P_select            \<comment> \<open>lines 239 to 274\<close>
  | P_submit_lock       \<comment> \<open>line 278, about to lock and test the predicate of line 279\<close>
  | P_submit_waiting    \<comment> \<open>in the wait set at line 279\<close>
  | P_fault

datatype worker_pc =
    W_not_started
  | W_init_cond         \<comment> \<open>line 114\<close>
  | W_init_lock         \<comment> \<open>line 117\<close>
  | W_init_waiting      \<comment> \<open>in the wait set at line 118\<close>
  | W_init_woken        \<comment> \<open>notified at line 118, has to take the mutex again\<close>
  | W_init_locked       \<comment> \<open>line 129, mutex held\<close>
  | W_cycle_cond        \<comment> \<open>line 135\<close>
  | W_cycle_lock        \<comment> \<open>line 138, about to lock and test the predicate of line 139\<close>
  | W_cycle_waiting     \<comment> \<open>in the wait set at line 139\<close>
  | W_cycle_update      \<comment> \<open>line 152, mutex held\<close>
  | W_cycle_mask        \<comment> \<open>line 162, mutex held\<close>
  | W_cycle_publish     \<comment> \<open>line 173, mutex held\<close>
  | W_cycle_complete    \<comment> \<open>line 185, mutex held\<close>
  | W_cycle_notify      \<comment> \<open>line 188\<close>
  | W_terminated
  | W_fault             \<comment> \<open>stopped at a fault, mutex held\<close>

datatype stop_pc =
    S_idle              \<comment> \<open>outside \<open>Stop\<close>\<close>
  | S_notify            \<comment> \<open>line 102\<close>
  | S_join              \<comment> \<open>line 104\<close>

type_synonym cycle = "Time \<times> Sensor list"

record system = SensorsPrivate +
  producer :: producer_pc
  t_local :: Time
  activeSensors_local :: "Sensor list"
  worker :: worker_pc
  stopper :: stop_pc
  joined :: bool
  renderInits :: nat
  sawRendering :: bool
  submitted :: "cycle list"
  consumed :: "cycle list"

definition init_system :: system where
  "init_system =
     \<lparr>sensorManager = Map.empty, initialized = False, sensorIds = [], scene = None,
      running = False, doInit = False, updateAvailable = False, updateTime = 0,
      activeSensors = [], sensorMask = Map.empty, errlog = [],
      producer = P_idle, t_local = 0, activeSensors_local = [],
      worker = W_not_started, stopper = S_idle, joined = False,
      renderInits = 0, sawRendering = False, submitted = [], consumed = []\<rparr>"

subsection \<open>Mutex and condition variable\<close>

definition mutex_free :: "system \<Rightarrow> bool" where
  "mutex_free s =
     (worker s \<noteq> W_init_locked \<and> worker s \<noteq> W_cycle_update \<and> worker s \<noteq> W_cycle_mask \<and>
      worker s \<noteq> W_cycle_publish \<and> worker s \<noteq> W_cycle_complete \<and> worker s \<noteq> W_fault)"

definition waiting :: "thread \<Rightarrow> system \<Rightarrow> bool" where
  "waiting who s =
     (case who of
        Producer \<Rightarrow> producer s = P_init_waiting \<or> producer s = P_submit_waiting
      | Worker \<Rightarrow> worker s = W_init_waiting \<or> worker s = W_cycle_waiting)"

text \<open>
  A woken thread goes back to where it takes the mutex: the waits with a predicate test
  it again, the wait of line 118 has none and goes on to line 120.
\<close>

definition wake :: "thread \<Rightarrow> system \<Rightarrow> system" where
  "wake who s =
     (case who of
        Producer \<Rightarrow>
          (if producer s = P_init_waiting then s\<lparr>producer := P_init_lock\<rparr>
           else if producer s = P_submit_waiting then s\<lparr>producer := P_submit_lock\<rparr>
           else s)
      | Worker \<Rightarrow>
          (if worker s = W_init_waiting then s\<lparr>worker := W_init_woken\<rparr>
           else if worker s = W_cycle_waiting then s\<lparr>worker := W_cycle_lock\<rparr>
           else s))"

definition notify_all :: "system \<Rightarrow> system" where
  "notify_all s = wake Producer (wake Worker s)"

text \<open>
  \<open>notify_one\<close> wakes one waiting thread, \<open>who\<close>; with an empty wait set it does
  nothing. It is not defined for a \<open>who\<close> that does not wait while another thread does.
\<close>

definition notify_one :: "thread \<Rightarrow> system \<Rightarrow> system option" where
  "notify_one who s =
     (if waiting who s then Some (wake who s)
      else if waiting Producer s \<or> waiting Worker s then None
      else Some s)"

subsection \<open>Collaborators of the render thread\<close>

text \<open>
  Modelled from the spec: \<open>RenderUtil::Update\<close> is not part of the sources. Line 205
  hands it \<open>CreateSensor\<close> as the callback that creates sensors, and the spec has the
  render worker update the registry as a side effect of its cycle; so \<open>Update\<close> calls
  \<open>CreateSensor\<close> once for each sensor it has to create, and stops at a fault.
\<close>

fun renderUtil_Update ::
  "(sdf_Sensor \<times> string \<times> (SensorId \<times> Sensor option)) list \<Rightarrow> 'a SensorsPrivate_scheme \<Rightarrow>
   (fault \<times> 'a SensorsPrivate_scheme) + 'a SensorsPrivate_scheme" where
  "renderUtil_Update [] d = Inr d"
| "renderUtil_Update ((sdf, parentName, made) # rest) d =
     (case CreateSensor sdf parentName made d of
        Inl fd \<Rightarrow> Inl fd
      | Inr (name, d') \<Rightarrow> renderUtil_Update rest d')"

text \<open>
  Modelled from the spec: \<open>sensors::Manager::RunOnce\<close> is not part of the sources. The
  spec has it trigger the publication of the sensors; of the modelled state it changes the
  next update time of the sensors, to the times \<open>nexts\<close>.
\<close>

definition Manager_RunOnce ::
  "(SensorId \<Rightarrow> Time) \<Rightarrow> (SensorId \<rightharpoonup> Sensor) \<Rightarrow> (SensorId \<rightharpoonup> Sensor)" where
  "Manager_RunOnce nexts mgr =
     (\<lambda>i. case mgr i of None \<Rightarrow> None | Some x \<Rightarrow> Some (x\<lparr>NextUpdateTime := nexts i\<rparr>))"

subsection \<open>Configure and Stop\<close>

text \<open>Lines 211 and 212; the thread object is assigned once.\<close>

definition Configure_step :: "system \<Rightarrow> system option" where
  "Configure_step s =
     (if worker s = W_not_started then Some (s\<lparr>running := True, worker := W_init_cond\<rparr>)
      else None)"

text \<open>Lines 99 to 101.\<close>

definition Stop_set_step :: "system \<Rightarrow> system option" where
  "Stop_set_step s =
     (if stopper s = S_idle \<and> mutex_free s
      then Some (s\<lparr>running := False, stopper := S_notify\<rparr>)
      else None)"

text \<open>Line 102.\<close>

definition Stop_notify_step :: "system \<Rightarrow> system option" where
  "Stop_notify_step s =
     (if stopper s = S_notify then Some ((notify_all s)\<lparr>stopper := S_join\<rparr>) else None)"

text \<open>
  Lines 104 to 107: the thread is joinable once started and until joined; \<open>join\<close>
  returns when \<open>RunLoop\<close> has returned.
\<close>

definition joinable :: "system \<Rightarrow> bool" where
  "joinable s = (worker s \<noteq> W_not_started \<and> \<not> joined s)"

definition Stop_join_step :: "system \<Rightarrow> system option" where
  "Stop_join_step s =
     (if stopper s \<noteq> S_join then None
      else if \<not> joinable s then Some (s\<lparr>stopper := S_idle\<rparr>)
      else if worker s = W_terminated then Some (s\<lparr>joined := True, stopper := S_idle\<rparr>)
      else None)"

subsection \<open>PostUpdate\<close>

text \<open>
  Line 221: \<open>hasType\<close> is the value of the four \<open>HasComponentType\<close> tests, \<open>simTime\<close>
  the time of the step.
\<close>

definition PostUpdate_enter_step :: "Time \<Rightarrow> bool \<Rightarrow> system \<Rightarrow> system option" where
  "PostUpdate_enter_step simTime hasType s =
     (if producer s \<noteq> P_idle then None
      else Some (s\<lparr>t_local := simTime,
                   sawRendering := (sawRendering s \<or> hasType),
                   producer := (if \<not> initialized s \<and> hasType then P_init_lock else P_check)\<rparr>))"

text \<open>Lines 228 to 232.\<close>

definition PostUpdate_request_init_step :: "system \<Rightarrow> system option" where
  "PostUpdate_request_init_step s =
     (if producer s \<noteq> P_init_lock \<or> \<not> mutex_free s then None
      else if \<not> running s \<or> \<not> updateAvailable s
      then Some (s\<lparr>doInit := True, producer := P_init_notify\<rparr>)
      else Some (s\<lparr>producer := P_init_waiting\<rparr>))"

text \<open>Line 233.\<close>

definition PostUpdate_notify_init_step :: "thread \<Rightarrow> system \<Rightarrow> system option" where
  "PostUpdate_notify_init_step who s =
     (if producer s \<noteq> P_init_notify then None
      else notify_one who (s\<lparr>producer := P_check\<rparr>))"

text \<open>Line 237.\<close>

definition PostUpdate_check_step :: "system \<Rightarrow> system option" where
  "PostUpdate_check_step s =
     (if producer s \<noteq> P_check then None
      else if running s \<and> initialized s then Some (s\<lparr>producer := P_select\<rparr>)
      else Some (s\<lparr>producer := P_idle\<rparr>))"

text \<open>
  Lines 239 to 274: the selection under \<open>sensorMaskMutex\<close>, then the test of line 274,
  where \<open>pending\<close> is the value of \<open>renderUtil.PendingSensors()\<close>.
\<close>

definition PostUpdate_selection_step :: "nat \<Rightarrow> system \<Rightarrow> system option" where
  "PostUpdate_selection_step pending s =
     (if producer s \<noteq> P_select then None
      else case PostUpdate_select (t_local s) (sensorManager s) (sensorIds s) (sensorMask s) of
             Inl f \<Rightarrow> Some (s\<lparr>producer := P_fault\<rparr>)
           | Inr (active, smask) \<Rightarrow>
               Some (s\<lparr>sensorMask := smask, activeSensors_local := active,
                       producer := (if active \<noteq> [] \<or> 0 < pending then P_submit_lock
                                    else P_idle)\<rparr>))"

text \<open>Lines 278 to 291.\<close>

definition PostUpdate_submit_step :: "thread \<Rightarrow> system \<Rightarrow> system option" where
  "PostUpdate_submit_step who s =
     (if producer s \<noteq> P_submit_lock \<or> \<not> mutex_free s then None
      else if \<not> (\<not> running s \<or> \<not> updateAvailable s)
      then Some (s\<lparr>producer := P_submit_waiting\<rparr>)
      else if \<not> running s then Some (s\<lparr>producer := P_idle\<rparr>)
      else notify_one who
             (s\<lparr>activeSensors := activeSensors_local s,
                updateTime := t_local s,
                updateAvailable := True,
                submitted := submitted s @ [(t_local s, activeSensors_local s)],
                producer := P_idle\<rparr>))"

subsection \<open>RunLoop\<close>

text \<open>Line 114.\<close>

definition RunLoop_init_cond_step :: "system \<Rightarrow> system option" where
  "RunLoop_init_cond_step s =
     (if worker s \<noteq> W_init_cond then None
      else if \<not> initialized s \<and> running s then Some (s\<lparr>worker := W_init_lock\<rparr>)
      else Some (s\<lparr>worker := W_cycle_cond\<rparr>))"

text \<open>Lines 117 and 118: the mutex is taken and given back by the wait.\<close>

definition RunLoop_init_wait_step :: "system \<Rightarrow> system option" where
  "RunLoop_init_wait_step s =
     (if worker s = W_init_lock \<and> mutex_free s then Some (s\<lparr>worker := W_init_waiting\<rparr>)
      else None)"

text \<open>
  Lines 118 to 127, from the moment the woken thread has the mutex again; \<open>sc\<close> is what
  \<open>renderUtil.Scene()\<close> returns.
\<close>

definition RunLoop_init_body_step :: "Scene option \<Rightarrow> system \<Rightarrow> system option" where
  "RunLoop_init_body_step sc s =
     (if worker s \<noteq> W_init_woken \<or> \<not> mutex_free s then None
      else if doInit s
      then Some (s\<lparr>renderInits := Suc (renderInits s), scene := sc, initialized := True,
                   worker := W_init_locked\<rparr>)
      else Some (s\<lparr>worker := W_init_locked\<rparr>))"

text \<open>Lines 129 to 131.\<close>

definition RunLoop_init_done_step :: "thread \<Rightarrow> system \<Rightarrow> system option" where
  "RunLoop_init_done_step who s =
     (if worker s \<noteq> W_init_locked then None
      else notify_one who (s\<lparr>updateAvailable := False, worker := W_init_cond\<rparr>))"

text \<open>Line 135.\<close>

definition RunLoop_cycle_cond_step :: "system \<Rightarrow> system option" where
  "RunLoop_cycle_cond_step s =
     (if worker s \<noteq> W_cycle_cond then None
      else if running s then Some (s\<lparr>worker := W_cycle_lock\<rparr>)
      else Some (s\<lparr>worker := W_terminated\<rparr>))"

text \<open>
  Lines 138 to 146. Passing the wait with \<open>running\<close> takes the cycle that is in
  \<open>updateTime\<close> and \<open>activeSensors\<close>.
\<close>

definition RunLoop_cycle_wait_step :: "system \<Rightarrow> system option" where
  "RunLoop_cycle_wait_step s =
     (if worker s \<noteq> W_cycle_lock \<or> \<not> mutex_free s then None
      else if \<not> (\<not> running s \<or> updateAvailable s)
      then Some (s\<lparr>worker := W_cycle_waiting\<rparr>)
      else if \<not> running s then Some (s\<lparr>worker := W_terminated\<rparr>)
      else Some (s\<lparr>consumed := consumed s @ [(updateTime s, activeSensors s)],
                   worker := W_cycle_update\<rparr>))"

text \<open>Lines 150 to 155; \<open>creations\<close> are the sensors \<open>renderUtil.Update()\<close> creates.\<close>

definition RunLoop_cycle_update_step ::
  "(sdf_Sensor \<times> string \<times> (SensorId \<times> Sensor option)) list \<Rightarrow> system \<Rightarrow> system option" where
  "RunLoop_cycle_update_step creations s =
     (if worker s \<noteq> W_cycle_update then None
      else case renderUtil_Update creations s of
             Inl (f, s') \<Rightarrow> Some (s'\<lparr>worker := W_fault\<rparr>)
           | Inr s' \<Rightarrow>
               Some (s'\<lparr>worker := (if activeSensors s' \<noteq> [] then W_cycle_mask
                                    else W_cycle_complete)\<rparr>))"

text \<open>Lines 162 to 169, with \<open>delta\<close> as in \<open>RunLoop_mask\<close>.\<close>

definition RunLoop_cycle_mask_step :: "(rat \<Rightarrow> Time) \<Rightarrow> system \<Rightarrow> system option" where
  "RunLoop_cycle_mask_step delta s =
     (if worker s \<noteq> W_cycle_mask then None
      else Some (s\<lparr>sensorMask := RunLoop_mask delta (updateTime s) (activeSensors s)
                                     (sensorMask s),
                   worker := W_cycle_publish\<rparr>))"

text \<open>Lines 171 to 183: \<open>scene->PreRender()\<close>, \<open>RunOnce\<close> and the clearing of the list.\<close>

definition RunLoop_cycle_publish_step :: "(SensorId \<Rightarrow> Time) \<Rightarrow> system \<Rightarrow> system option" where
  "RunLoop_cycle_publish_step nexts s =
     (if worker s \<noteq> W_cycle_publish then None
      else case deref (scene s) of
             Inl f \<Rightarrow> Some (s\<lparr>worker := W_fault\<rparr>)
           | Inr sc \<Rightarrow>
               Some (s\<lparr>sensorManager := Manager_RunOnce nexts (sensorManager s),
                       activeSensors := [],
                       worker := W_cycle_complete\<rparr>))"

text \<open>Lines 185 to 187.\<close>

definition RunLoop_cycle_complete_step :: "system \<Rightarrow> system option" where
  "RunLoop_cycle_complete_step s =
     (if worker s \<noteq> W_cycle_complete then None
      else Some (s\<lparr>updateAvailable := False, worker := W_cycle_notify\<rparr>))"

text \<open>Line 188.\<close>

definition RunLoop_cycle_notify_step :: "thread \<Rightarrow> system \<Rightarrow> system option" where
  "RunLoop_cycle_notify_step who s =
     (if worker s \<noteq> W_cycle_notify then None
      else notify_one who (s\<lparr>worker := W_cycle_cond\<rparr>))"

subsection \<open>The step function\<close>

definition Spurious_wakeup_step :: "thread \<Rightarrow> system \<Rightarrow> system option" where
  "Spurious_wakeup_step who s = (if waiting who s then Some (wake who s) else None)"

datatype action =
    Configure
  | Stop_set
  | Stop_notify
  | Stop_join
  | PostUpdate_enter Time bool
  | PostUpdate_request_init
  | PostUpdate_notify_init thread
  | PostUpdate_check
  | PostUpdate_selection nat
  | PostUpdate_submit thread
  | RunLoop_init_cond
  | RunLoop_init_wait
  | RunLoop_init_body "Scene option"
  | RunLoop_init_done thread
  | RunLoop_cycle_cond
  | RunLoop_cycle_wait
  | RunLoop_cycle_update "(sdf_Sensor \<times> string \<times> (SensorId \<times> Sensor option)) list"
  | RunLoop_cycle_mask "rat \<Rightarrow> Time"
  | RunLoop_cycle_publish "SensorId \<Rightarrow> Time"
  | RunLoop_cycle_complete
  | RunLoop_cycle_notify thread
  | Spurious_wakeup thread

fun step :: "action \<Rightarrow> system \<Rightarrow> system option" where
  "step Configure s = Configure_step s"
| "step Stop_set s = Stop_set_step s"
| "step Stop_notify s = Stop_notify_step s"
| "step Stop_join s = Stop_join_step s"
| "step (PostUpdate_enter simTime hasType) s = PostUpdate_enter_step simTime hasType s"
| "step PostUpdate_request_init s = PostUpdate_request_init_step s"
| "step (PostUpdate_notify_init who) s = PostUpdate_notify_init_step who s"
| "step PostUpdate_check s = PostUpdate_check_step s"
| "step (PostUpdate_selection pending) s = PostUpdate_selection_step pending s"
| "step (PostUpdate_submit who) s = PostUpdate_submit_step who s"
| "step RunLoop_init_cond s = RunLoop_init_cond_step s"
| "step RunLoop_init_wait s = RunLoop_init_wait_step s"
| "step (RunLoop_init_body sc) s = RunLoop_init_body_step sc s"
| "step (RunLoop_init_done who) s = RunLoop_init_done_step who s"
| "step RunLoop_cycle_cond s = RunLoop_cycle_cond_step s"
| "step RunLoop_cycle_wait s = RunLoop_cycle_wait_step s"
| "step (RunLoop_cycle_update creations) s = RunLoop_cycle_update_step creations s"
| "step (RunLoop_cycle_mask delta) s = RunLoop_cycle_mask_step delta s"
| "step (RunLoop_cycle_publish nexts) s = RunLoop_cycle_publish_step nexts s"
| "step RunLoop_cycle_complete s = RunLoop_cycle_complete_step s"
| "step (RunLoop_cycle_notify who) s = RunLoop_cycle_notify_step who s"
| "step (Spurious_wakeup who) s = Spurious_wakeup_step who s"

text \<open>Running a list of actions, and the states the system can reach.\<close>

fun run :: "action list \<Rightarrow> system \<Rightarrow> system option" where
  "run [] s = Some s"
| "run (a # as) s = (case step a s of None \<Rightarrow> None | Some s' \<Rightarrow> run as s')"

inductive reachable :: "system \<Rightarrow> bool" where
  reachable_init: "reachable init_system"
| reachable_step: "reachable s \<Longrightarrow> step a s = Some s' \<Longrightarrow> reachable s'"

section \<open>Notions used in the statements\<close>

subsection \<open>The frame selector, as the specification words it\<close>

text \<open>
  What the registry id \<open>i\<close> contributes to the selection of the step at time \<open>t\<close>:
  nothing while a mask entry lies in the future of \<open>t\<close>; otherwise its
  rendering-capable handle, if it has one whose next update time is at or before \<open>t\<close>.
\<close>

definition due_handle ::
  "Time \<Rightarrow> (SensorId \<rightharpoonup> Sensor) \<Rightarrow> (SensorId \<rightharpoonup> Time) \<Rightarrow> SensorId \<Rightarrow> Sensor option" where
  "due_handle t mgr smask i =
     (case smask i of
        Some until \<Rightarrow>
          if t < until then None
          else (case dynamic_cast (mgr i) of
                  None \<Rightarrow> None
                | Some r \<Rightarrow> if NextUpdateTime r \<le> t then Some r else None)
      | None \<Rightarrow>
          (case dynamic_cast (mgr i) of
             None \<Rightarrow> None
           | Some r \<Rightarrow> if NextUpdateTime r \<le> t then Some r else None))"

text \<open>The mask after the step: the entries of registry ids that \<open>t\<close> has reached are gone.\<close>

definition expire ::
  "Time \<Rightarrow> SensorId list \<Rightarrow> (SensorId \<rightharpoonup> Time) \<Rightarrow> (SensorId \<rightharpoonup> Time)" where
  "expire t ids smask =
     (\<lambda>i. case smask i of
            None \<Rightarrow> None
          | Some until \<Rightarrow> if i \<in> set ids \<and> until \<le> t then None else Some until)"

text \<open>Replacing the update rate of every sensor of the manager.\<close>

definition with_rates :: "(rat \<Rightarrow> rat) \<Rightarrow> (SensorId \<rightharpoonup> Sensor) \<Rightarrow> (SensorId \<rightharpoonup> Sensor)" where
  "with_rates f mgr =
     (\<lambda>i. case mgr i of None \<Rightarrow> None | Some x \<Rightarrow> Some (x\<lparr>UpdateRate := f (UpdateRate x)\<rparr>))"

subsection \<open>Regions of the two threads\<close>

text \<open>The render thread has taken a cycle and not completed it (lines 148 to 185).\<close>

definition cycle_taken :: "system \<Rightarrow> bool" where
  "cycle_taken s =
     (worker s = W_cycle_update \<or> worker s = W_cycle_mask \<or> worker s = W_cycle_publish \<or>
      worker s = W_cycle_complete \<or> worker s = W_fault)"

text \<open>
  The pending cycle: what the slot \<open>updateTime\<close>, \<open>activeSensors\<close> holds while
  \<open>updateAvailable\<close> is set and the render thread has not taken it.
\<close>

definition pending :: "system \<Rightarrow> cycle list" where
  "pending s =
     (if updateAvailable s \<and> \<not> cycle_taken s then [(updateTime s, activeSensors s)] else [])"

definition in_init_request :: "system \<Rightarrow> bool" where
  "in_init_request s =
     (producer s = P_init_lock \<or> producer s = P_init_waiting \<or> producer s = P_init_notify)"

definition in_submission :: "system \<Rightarrow> bool" where
  "in_submission s =
     (producer s = P_select \<or> producer s = P_submit_lock \<or> producer s = P_submit_waiting)"

definition in_init_loop :: "system \<Rightarrow> bool" where
  "in_init_loop s =
     (worker s = W_init_lock \<or> worker s = W_init_waiting \<or> worker s = W_init_woken)"

definition in_cycle_loop :: "system \<Rightarrow> bool" where
  "in_cycle_loop s =
     (worker s = W_cycle_lock \<or> worker s = W_cycle_waiting \<or> worker s = W_cycle_notify \<or>
      cycle_taken s)"

text \<open>Two states that differ at most in the sensor manager, the registry and the log.\<close>

definition same_control :: "system \<Rightarrow> system \<Rightarrow> bool" where
  "same_control s s' =
     (initialized s' = initialized s \<and> scene s' = scene s \<and> running s' = running s \<and>
      doInit s' = doInit s \<and> updateAvailable s' = updateAvailable s \<and>
      updateTime s' = updateTime s \<and> activeSensors s' = activeSensors s \<and>
      sensorMask s' = sensorMask s \<and> producer s' = producer s \<and> t_local s' = t_local s \<and>
      activeSensors_local s' = activeSensors_local s \<and> worker s' = worker s \<and>
      stopper s' = stopper s \<and> joined s' = joined s \<and> renderInits s' = renderInits s \<and>
      sawRendering s' = sawRendering s \<and> submitted s' = submitted s \<and>
      consumed s' = consumed s)"

text \<open>The invariant of the protocol that the properties below are read from.\<close>

definition protocol_inv :: "system \<Rightarrow> bool" where
  "protocol_inv s =
     ((updateAvailable s \<longrightarrow> initialized s) \<and>
      (in_init_request s \<longrightarrow> \<not> updateAvailable s) \<and>
      (in_submission s \<longrightarrow> initialized s) \<and>
      (in_init_loop s \<longrightarrow> \<not> initialized s) \<and>
      (worker s = W_init_locked \<longrightarrow> \<not> updateAvailable s) \<and>
      (cycle_taken s \<longrightarrow> updateAvailable s) \<and>
      (in_cycle_loop s \<longrightarrow> initialized s) \<and>
      (worker s = W_cycle_cond \<longrightarrow> \<not> initialized s \<longrightarrow> \<not> running s) \<and>
      (worker s = W_not_started \<longrightarrow> \<not> initialized s) \<and>
      (running s \<longrightarrow> worker s \<noteq> W_not_started) \<and>
      submitted s = consumed s @ pending s \<and>
      renderInits s = (if initialized s then 1 else 0) \<and>
      (in_init_request s \<longrightarrow> sawRendering s) \<and>
      (doInit s \<longrightarrow> sawRendering s) \<and>
      (initialized s \<longrightarrow> doInit s))"

subsection \<open>Example data\<close>

text \<open>
  Three rendering sensors, at 10 Hz, with update rate 0 and at 13 Hz, all due at time 0,
  and the descriptor of a camera.
\<close>

definition camera_A :: Sensor where
  "camera_A = \<lparr>Id_of = 1, Name_of = ''camera_A'', UpdateRate = 10, NextUpdateTime = 0,
                isRendering = True, Scene_of = None, Parent_of = [],
                ManualSceneUpdate = False\<rparr>"

definition camera_B :: Sensor where
  "camera_B = \<lparr>Id_of = 2, Name_of = ''camera_B'', UpdateRate = 0, NextUpdateTime = 0,
                isRendering = True, Scene_of = None, Parent_of = [],
                ManualSceneUpdate = False\<rparr>"


text \<open>
  An instance of the parameter \<open>delta\<close> of the masking loop, for the examples: the
  quotient rounded to whole nanoseconds, and \<open>garbage\<close> for the rate 0.
\<close>

definition delta_ns :: "Time \<Rightarrow> rat \<Rightarrow> Time" where
  "delta_ns garbage rate =
     (if rate = 0 then garbage
      else of_int (round ((9 / 10) / rate * 10 ^ 9)) / 10 ^ 9)"

definition camera_sdf :: sdf_Sensor where
  "camera_sdf = \<lparr>sdf_Type = CAMERA, sdf_Name = ''cam''\<rparr>"

subsection \<open>Example runs\<close>

text \<open>
  A run up to the initialization: the render thread starts and waits at line 118, the
  first step asks for the initialization, the render thread initializes (its scene is 1)
  and waits for a cycle at line 139.
\<close>

definition trace_initialized :: "action list" where
  "trace_initialized =
     [Configure, RunLoop_init_cond, RunLoop_init_wait,
      PostUpdate_enter 0 True, PostUpdate_request_init, PostUpdate_notify_init Worker,
      PostUpdate_check,
      RunLoop_init_body (Some 1), RunLoop_init_done Worker, RunLoop_init_cond,
      RunLoop_cycle_cond, RunLoop_cycle_wait]"

definition state_initialized :: system where
  "state_initialized =
     init_system\<lparr>initialized := True, scene := Some 1, running := True, doInit := True,
                  worker := W_cycle_waiting, renderInits := 1, sawRendering := True\<rparr>"

text \<open>
  Next a step submits an empty cycle, because a sensor is pending, and the render thread
  creates the 10 Hz camera under id 1 while it works on that cycle.
\<close>

definition camera_A_bound :: Sensor where
  "camera_A_bound = camera_A\<lparr>Scene_of := Some 1, Parent_of := ''model'',
                              ManualSceneUpdate := True\<rparr>"

definition trace_created :: "action list" where
  "trace_created =
     [PostUpdate_enter 0 True, PostUpdate_check, PostUpdate_selection 1,
      PostUpdate_submit Worker,
      RunLoop_cycle_wait, RunLoop_cycle_update [(camera_sdf, ''model'', (1, Some camera_A))],
      RunLoop_cycle_complete, RunLoop_cycle_notify Worker, RunLoop_cycle_cond,
      RunLoop_cycle_wait]"

definition state_created :: system where
  "state_created =
     state_initialized\<lparr>sensorManager := [1 \<mapsto> camera_A_bound], sensorIds := [1],
                       submitted := [(0, [])], consumed := [(0, [])]\<rparr>"

text \<open>
  The step at 1 ms selects the camera (\<open>state_selected\<close>) and submits it
  (\<open>state_submitted\<close>). The step at 2 ms then runs its selection before the render
  thread has taken that cycle (\<open>state_reselect\<close>).
\<close>

definition trace_select1 :: "action list" where
  "trace_select1 =
     [PostUpdate_enter (1 / 1000) True, PostUpdate_check, PostUpdate_selection 0]"

definition state_selected :: system where
  "state_selected =
     state_created\<lparr>producer := P_submit_lock, t_local := 1 / 1000,
                   activeSensors_local := [camera_A_bound]\<rparr>"

definition state_submitted :: system where
  "state_submitted =
     state_created\<lparr>updateAvailable := True, updateTime := 1 / 1000,
                   activeSensors := [camera_A_bound],
                   t_local := 1 / 1000, activeSensors_local := [camera_A_bound],
                   worker := W_cycle_lock,
                   submitted := [(0, []), (1 / 1000, [camera_A_bound])]\<rparr>"

definition trace_select2 :: "action list" where
  "trace_select2 =
     [PostUpdate_enter (2 / 1000) True, PostUpdate_check, PostUpdate_selection 0]"

definition state_reselect :: system where
  "state_reselect = state_submitted\<lparr>producer := P_submit_lock, t_local := 2 / 1000\<rparr>"

text \<open>
  When the render thread runs after the submission instead, it works on the cycle of 1 ms
  up to line 185.
\<close>

definition trace_cycle :: "action list" where
  "trace_cycle =
     [RunLoop_cycle_wait, RunLoop_cycle_update [], RunLoop_cycle_mask (delta_ns 0),
      RunLoop_cycle_publish (\<lambda>i. 1 / 10)]"

definition state_processed :: system where
  "state_processed =
     state_submitted\<lparr>sensorManager := Manager_RunOnce (\<lambda>i. 1 / 10) [1 \<mapsto> camera_A_bound],
                     activeSensors := [],
                     sensorMask := [1 \<mapsto> 91 / 1000],
                     worker := W_cycle_complete,
                     consumed := [(0, []), (1 / 1000, [camera_A_bound])]\<rparr>"

text \<open>
  A first step that asks for the initialization (\<open>state_requesting\<close>, at line 228) and
  returns, followed by the entry of the next step. And a run in which the second step has
  read \<open>initialized\<close> as false at line 221 and comes to line 228 while the render thread
  holds the mutex after line 126 (\<open>state_request_blocked\<close>); when the render thread has
  released it, the step goes on to its selection (\<open>state_request_selecting\<close>).
\<close>

definition state_requesting :: system where
  "state_requesting =
     init_system\<lparr>running := True, producer := P_init_lock, worker := W_init_cond,
                  sawRendering := True\<rparr>"

definition trace_request :: "action list" where
  "trace_request =
     [Configure, PostUpdate_enter 0 True, PostUpdate_request_init,
      PostUpdate_notify_init Worker, PostUpdate_check, PostUpdate_enter 1 True]"

definition trace_request_blocked :: "action list" where
  "trace_request_blocked =
     [Configure, RunLoop_init_cond, RunLoop_init_wait,
      PostUpdate_enter 0 True, PostUpdate_request_init, PostUpdate_notify_init Worker,
      PostUpdate_check,
      PostUpdate_enter 1 True, RunLoop_init_body (Some 1)]"

definition state_request_blocked :: system where
  "state_request_blocked =
     init_system\<lparr>initialized := True, scene := Some 1, running := True, doInit := True,
                  producer := P_init_lock, t_local := 1, worker := W_init_locked,
                  renderInits := 1, sawRendering := True\<rparr>"

definition trace_request_resumed :: "action list" where
  "trace_request_resumed =
     [RunLoop_init_done Worker, PostUpdate_request_init, PostUpdate_notify_init Worker,
      PostUpdate_check]"

definition state_request_selecting :: system where
  "state_request_selecting =
     state_request_blocked\<lparr>producer := P_select, worker := W_init_cond\<rparr>"

definition state_second_step :: system where
  "state_second_step =
     init_system\<lparr>running := True, doInit := True, producer := P_init_lock, t_local := 1,
                  worker := W_init_cond, sawRendering := True\<rparr>"

text \<open>
  \<open>Stop\<close> overtakes the render thread between lines 114 and 118. \<open>quiet\<close> are the
  actions other than a spurious wake-up of the render thread and the entry of a step that
  sees a rendering component; \<open>stuck\<close> are the states in which the render thread waits
  at line 118, \<open>Stop\<close> waits in \<open>join\<close> and the simulation thread is between steps
  or at line 237.
\<close>

definition trace_lost_wakeup :: "action list" where
  "trace_lost_wakeup = [Configure, RunLoop_init_cond, Stop_set, Stop_notify, RunLoop_init_wait]"

definition state_lost_wakeup :: system where
  "state_lost_wakeup = init_system\<lparr>worker := W_init_waiting, stopper := S_join\<rparr>"

fun quiet :: "action \<Rightarrow> bool" where
  "quiet (Spurious_wakeup who) = (who \<noteq> Worker)"
| "quiet (PostUpdate_enter simTime hasType) = (\<not> hasType)"
| "quiet a = True"

definition stuck :: "system \<Rightarrow> bool" where
  "stuck s =
     (worker s = W_init_waiting \<and> stopper s = S_join \<and> \<not> running s \<and> \<not> joined s \<and>
      (producer s = P_idle \<or> producer s = P_check))"

text \<open>An IMU, which is no rendering sensor, and its descriptor.\<close>

definition imu_C :: Sensor where
  "imu_C = \<lparr>Id_of = 3, Name_of = ''imu_C'', UpdateRate = 100, NextUpdateTime = 0,
             isRendering = False, Scene_of = None, Parent_of = [],
             ManualSceneUpdate = False\<rparr>"

definition imu_sdf :: sdf_Sensor where
  "imu_sdf = \<lparr>sdf_Type = IMU, sdf_Name = ''imu''\<rparr>"

section \<open>Properties of the selection loop\<close>

lemma select_body_due:
  "select_body t mgr i (active, smask) =
     Inr (active @ (case due_handle t mgr smask i of None \<Rightarrow> [] | Some r \<Rightarrow> [r]),
          expire t [i] smask)"
  by (auto simp: select_body_def deref_def due_handle_def expire_def fun_eq_iff
      split: option.splits)

lemma due_handle_expire:
  "due_handle t mgr (expire t js smask) i = due_handle t mgr smask i"
  by (auto simp: due_handle_def expire_def split: option.splits)

lemma expire_Cons: "expire t ids (expire t [i] smask) = expire t (i # ids) smask"
  by (auto simp: expire_def fun_eq_iff split: option.splits)

lemma select_loop_closed:
  "select_loop t mgr ids (active, smask) =
     Inr (active @ List.map_filter (due_handle t mgr smask) ids, expire t ids smask)"
proof (induction ids arbitrary: active smask)
  case Nil
  show ?case
    by (auto simp: List.map_filter_simps expire_def fun_eq_iff split: option.splits)
next
  case (Cons i ids)
  show ?case
    by (simp add: select_body_due Cons.IH due_handle_expire expire_Cons List.map_filter_simps
        split: option.splits)
qed

text \<open>
  C4 (frame selector). For the step at time \<open>t\<close> the loop over the registry never
  faults and does, for every registry id, what \<open>due_handle\<close> and \<open>expire\<close> say: an id
  whose mask entry lies strictly in the future of \<open>t\<close> is skipped and keeps its entry;
  an entry at or before \<open>t\<close> is removed and the id is evaluated as if it had none; an
  id without such an entry contributes its sensor to the selection exactly when the
  sensor's next update time is at or before \<open>t\<close> (a sensor being what the manager holds
  under the id as a rendering sensor). The selection keeps the order of the registry.
\<close>

theorem frame_selector:
  "PostUpdate_select t mgr ids smask =
     Inr (List.map_filter (due_handle t mgr smask) ids, expire t ids smask)"
  by (simp add: PostUpdate_select_def select_loop_closed)

section \<open>Properties of the mask\<close>



lemma map_filter_removeAll:
  "f i = None \<Longrightarrow> List.map_filter f (removeAll i ids) = List.map_filter f ids"
  by (induction ids) (auto split: option.splits)





lemma due_handle_with_rates:
  "due_handle t (with_rates f mgr) smask =
     (\<lambda>i. map_option (\<lambda>x. x\<lparr>UpdateRate := f (UpdateRate x)\<rparr>) (due_handle t mgr smask i))"
  by (auto simp: due_handle_def with_rates_def dynamic_cast_def fun_eq_iff split: option.splits)

lemma map_filter_map_option:
  "List.map_filter (\<lambda>i. map_option g (h i)) ids = map g (List.map_filter h ids)"
  by (induction ids) (auto split: option.splits)

text \<open>
  The selection never reads an update rate: with the rates of all sensors replaced by any
  others it selects the same sensors and leaves the same mask.
\<close>

lemma selection_ignores_rate:
  "\<exists>sel smask'.
     PostUpdate_select t mgr ids smask = Inr (sel, smask') \<and>
     PostUpdate_select t (with_rates f mgr) ids smask =
       Inr (map (\<lambda>x. x\<lparr>UpdateRate := f (UpdateRate x)\<rparr>) sel, smask')"
  by (simp add: PostUpdate_select_def select_loop_closed due_handle_with_rates
      map_filter_map_option)

text \<open>
  C6 (rate-zero safety) fails in the code, which has no test of the update rate
  anywhere: the rendering sensor of update rate 0 that is due at time 0 is selected by the
  step at time 0, and the masking loop of the render thread, working on that cycle,
  divides 0.9 by its rate and stores as its mask entry what the conversion makes of the
  quotient, \<open>delta 0\<close>.
\<close>

theorem rate_zero_unguarded:
  "PostUpdate_select 0 [2 \<mapsto> camera_B] [2] Map.empty = Inr ([camera_B], Map.empty) \<and>
   UpdateRate camera_B = 0 \<and>
   RunLoop_mask delta 0 [camera_B] Map.empty = [2 \<mapsto> delta 0]"
  by (simp add: PostUpdate_select_def select_body_def dynamic_cast_def deref_def camera_B_def)

section \<open>Properties of CreateSensor\<close>

text \<open>
  C7 (error handling of CreateSensor) fails in the code for a creation that the sensor
  manager refuses: with the descriptor of a camera and a manager that answers
  \<open>NO_SENSOR\<close> and stores no object, \<open>CreateSensor\<close> logs the failure, does not
  return, and reads through the null pointer \<open>renderingSensor\<close> at line 319. For a
  descriptor of type \<open>NONE\<close> it does what the claim says: it logs, returns the empty
  string and changes nothing else.
\<close>

theorem CreateSensor_failed_creation:
  "CreateSensor camera_sdf ''model'' (NO_SENSOR, None) init_system =
     Inl (NullPointerDereference,
          init_system\<lparr>sensorIds := [NO_SENSOR],
                       errlog := [''Failed to create sensor [cam]'']\<rparr>) \<and>
   CreateSensor (camera_sdf\<lparr>sdf_Type := NONE\<rparr>) parentName made d =
     Inr ([], d\<lparr>errlog := errlog d @
                   [''Unable to create sensor. SDF sensor type is NONE.'']\<rparr>)"
  by (simp add: CreateSensor_def camera_sdf_def Manager_CreateSensor_def init_system_def
      insort_insert_key_def dynamic_cast_def deref_def NO_SENSOR_def)

section \<open>The invariant of the protocol\<close>

lemma CreateSensor_control:
  "CreateSensor sdf parentName made s = Inr (name, s') \<Longrightarrow> same_control s s'"
  "CreateSensor sdf parentName made s = Inl (f, s') \<Longrightarrow> same_control s s'"
  by (auto simp: CreateSensor_def Let_def same_control_def deref_def
      split: if_splits sum.splits option.splits)

lemma same_control_trans: "same_control a b \<Longrightarrow> same_control b c \<Longrightarrow> same_control a c"
  by (simp add: same_control_def)

lemma renderUtil_Update_control_Inr:
  "renderUtil_Update cs s = Inr s' \<Longrightarrow> same_control s s'"
proof (induction cs arbitrary: s)
  case Nil
  then show ?case by (simp add: same_control_def)
next
  case (Cons c cs)
  obtain sdf parentName made where c: "c = (sdf, parentName, made)"
    by (cases c) auto
  from Cons.prems c obtain name s1 where
    s1: "CreateSensor sdf parentName made s = Inr (name, s1)" and
    rest: "renderUtil_Update cs s1 = Inr s'"
    by (auto split: sum.splits)
  from CreateSensor_control(1)[OF s1] Cons.IH[OF rest] show ?case
    by (rule same_control_trans)
qed

lemma renderUtil_Update_control_Inl:
  "renderUtil_Update cs s = Inl (f, s') \<Longrightarrow> same_control s s'"
proof (induction cs arbitrary: s)
  case Nil
  then show ?case by simp
next
  case (Cons c cs)
  obtain sdf parentName made where c: "c = (sdf, parentName, made)"
    by (cases c) auto
  show ?case
  proof (cases "CreateSensor sdf parentName made s")
    case (Inl fd)
    with Cons.prems c have "CreateSensor sdf parentName made s = Inl (f, s')"
      by simp
    then show ?thesis by (rule CreateSensor_control(2))
  next
    case (Inr ns)
    obtain name s1 where ns: "ns = (name, s1)" by (cases ns) auto
    from Cons.prems c Inr ns have rest: "renderUtil_Update cs s1 = Inl (f, s')"
      by simp
    from Inr ns have "CreateSensor sdf parentName made s = Inr (name, s1)" by simp
    from CreateSensor_control(1)[OF this] Cons.IH[OF rest] show ?thesis
      by (rule same_control_trans)
  qed
qed

lemmas region_defs = cycle_taken_def pending_def in_init_request_def in_submission_def
  in_init_loop_def in_cycle_loop_def mutex_free_def

lemmas cv_defs = waiting_def wake_def notify_one_def notify_all_def

lemma inv_init: "protocol_inv init_system"
  by (simp add: protocol_inv_def init_system_def region_defs)

lemma wake_fields:
  "initialized (wake who s) = initialized s"
  "running (wake who s) = running s"
  "doInit (wake who s) = doInit s"
  "updateAvailable (wake who s) = updateAvailable s"
  "updateTime (wake who s) = updateTime s"
  "activeSensors (wake who s) = activeSensors s"
  "renderInits (wake who s) = renderInits s"
  "sawRendering (wake who s) = sawRendering s"
  "submitted (wake who s) = submitted s"
  "consumed (wake who s) = consumed s"
  by (simp_all add: wake_def split: thread.splits)

lemma wake_regions:
  "cycle_taken (wake who s) = cycle_taken s"
  "in_init_request (wake who s) = in_init_request s"
  "in_submission (wake who s) = in_submission s"
  "in_init_loop (wake who s) = in_init_loop s"
  "in_cycle_loop (wake who s) = in_cycle_loop s"
  "(worker (wake who s) = W_init_locked) = (worker s = W_init_locked)"
  "(worker (wake who s) = W_cycle_cond) = (worker s = W_cycle_cond)"
  "(worker (wake who s) = W_not_started) = (worker s = W_not_started)"
  by (auto simp: wake_def region_defs split: thread.splits)

lemma inv_wake: "protocol_inv (wake who s) = protocol_inv s"
  by (simp add: protocol_inv_def pending_def wake_fields wake_regions)

lemma inv_notify_one: "notify_one who s = Some s' \<Longrightarrow> protocol_inv s' = protocol_inv s"
  by (auto simp: notify_one_def inv_wake split: if_splits)

lemma inv_notify_all: "protocol_inv (notify_all s) = protocol_inv s"
  by (simp add: notify_all_def inv_wake)

lemma inv_Configure: "protocol_inv s \<Longrightarrow> Configure_step s = Some s' \<Longrightarrow> protocol_inv s'"
  by (clarsimp simp: protocol_inv_def Configure_step_def region_defs split: if_splits)

lemma inv_Stop_set: "protocol_inv s \<Longrightarrow> Stop_set_step s = Some s' \<Longrightarrow> protocol_inv s'"
  by (clarsimp simp: protocol_inv_def Stop_set_step_def region_defs split: if_splits)

lemma inv_stopper: "protocol_inv (s\<lparr>stopper := x\<rparr>) = protocol_inv s"
  by (simp add: protocol_inv_def region_defs)

lemma inv_Stop_notify: "protocol_inv s \<Longrightarrow> Stop_notify_step s = Some s' \<Longrightarrow> protocol_inv s'"
  by (auto simp: Stop_notify_step_def inv_stopper inv_notify_all split: if_splits)

lemma inv_Stop_join: "protocol_inv s \<Longrightarrow> Stop_join_step s = Some s' \<Longrightarrow> protocol_inv s'"
  by (clarsimp simp: protocol_inv_def Stop_join_step_def region_defs split: if_splits)

lemma inv_PostUpdate_enter:
  "protocol_inv s \<Longrightarrow> PostUpdate_enter_step simTime hasType s = Some s' \<Longrightarrow> protocol_inv s'"
  by (clarsimp simp: protocol_inv_def PostUpdate_enter_step_def region_defs split: if_splits)

lemma inv_PostUpdate_request_init:
  "protocol_inv s \<Longrightarrow> PostUpdate_request_init_step s = Some s' \<Longrightarrow> protocol_inv s'"
  by (clarsimp simp: protocol_inv_def PostUpdate_request_init_step_def region_defs
      split: if_splits)

lemma inv_PostUpdate_notify_init:
  assumes "protocol_inv s" and "PostUpdate_notify_init_step who s = Some s'"
  shows "protocol_inv s'"
proof -
  from assms(2) have pc: "producer s = P_init_notify"
    and n: "notify_one who (s\<lparr>producer := P_check\<rparr>) = Some s'"
    by (auto simp: PostUpdate_notify_init_step_def split: if_splits)
  from assms(1) pc have "protocol_inv (s\<lparr>producer := P_check\<rparr>)"
    by (clarsimp simp: protocol_inv_def region_defs)
  with inv_notify_one[OF n] show ?thesis by simp
qed

lemma inv_PostUpdate_check:
  "protocol_inv s \<Longrightarrow> PostUpdate_check_step s = Some s' \<Longrightarrow> protocol_inv s'"
  by (clarsimp simp: protocol_inv_def PostUpdate_check_step_def region_defs split: if_splits)

lemma inv_PostUpdate_selection:
  "protocol_inv s \<Longrightarrow> PostUpdate_selection_step n s = Some s' \<Longrightarrow> protocol_inv s'"
  by (clarsimp simp: protocol_inv_def PostUpdate_selection_step_def region_defs
      split: if_splits sum.splits prod.splits)

lemma inv_PostUpdate_submit:
  assumes "protocol_inv s" and "PostUpdate_submit_step who s = Some s'"
  shows "protocol_inv s'"
proof -
  from assms(2) have pc: "producer s = P_submit_lock" and free: "mutex_free s"
    by (auto simp: PostUpdate_submit_step_def split: if_splits)
  show ?thesis
  proof (cases "running s \<and> \<not> updateAvailable s")
    case False
    with assms pc free show ?thesis
      by (clarsimp simp: protocol_inv_def PostUpdate_submit_step_def region_defs
          split: if_splits)
  next
    case True
    let ?m = "s\<lparr>activeSensors := activeSensors_local s, updateTime := t_local s,
                updateAvailable := True,
                submitted := submitted s @ [(t_local s, activeSensors_local s)],
                producer := P_idle\<rparr>"
    from assms(2) pc free True have n: "notify_one who ?m = Some s'"
      by (simp add: PostUpdate_submit_step_def)
    from assms(1) pc free True have "protocol_inv ?m"
      by (clarsimp simp: protocol_inv_def region_defs)
    with inv_notify_one[OF n] show ?thesis by simp
  qed
qed

lemma inv_same_control:
  "same_control s s' \<Longrightarrow> protocol_inv s' = protocol_inv s"
  by (simp add: same_control_def protocol_inv_def region_defs)


lemma inv_RunLoop_init_cond:
  "protocol_inv s \<Longrightarrow> RunLoop_init_cond_step s = Some s' \<Longrightarrow> protocol_inv s'"
  by (clarsimp simp: protocol_inv_def RunLoop_init_cond_step_def region_defs split: if_splits)


lemma inv_RunLoop_init_wait:
  "protocol_inv s \<Longrightarrow> RunLoop_init_wait_step s = Some s' \<Longrightarrow> protocol_inv s'"
  by (clarsimp simp: protocol_inv_def RunLoop_init_wait_step_def region_defs split: if_splits)


lemma inv_RunLoop_init_body:
  "protocol_inv s \<Longrightarrow> RunLoop_init_body_step sc s = Some s' \<Longrightarrow> protocol_inv s'"
  by (clarsimp simp: protocol_inv_def RunLoop_init_body_step_def region_defs split: if_splits)


lemma inv_RunLoop_init_done:
  assumes "protocol_inv s" and "RunLoop_init_done_step who s = Some s'"
  shows "protocol_inv s'"
proof -
  from assms(2) have pc: "worker s = W_init_locked"
    and n: "notify_one who (s\<lparr>updateAvailable := False, worker := W_init_cond\<rparr>) = Some s'"
    by (auto simp: RunLoop_init_done_step_def split: if_splits)
  from assms(1) pc have "protocol_inv (s\<lparr>updateAvailable := False, worker := W_init_cond\<rparr>)"
    by (clarsimp simp: protocol_inv_def region_defs)
  with inv_notify_one[OF n] show ?thesis by simp
qed


lemma inv_RunLoop_cycle_cond:
  "protocol_inv s \<Longrightarrow> RunLoop_cycle_cond_step s = Some s' \<Longrightarrow> protocol_inv s'"
  by (clarsimp simp: protocol_inv_def RunLoop_cycle_cond_step_def region_defs split: if_splits)


lemma inv_RunLoop_cycle_wait:
  "protocol_inv s \<Longrightarrow> RunLoop_cycle_wait_step s = Some s' \<Longrightarrow> protocol_inv s'"
  by (clarsimp simp: protocol_inv_def RunLoop_cycle_wait_step_def region_defs split: if_splits)


lemma inv_RunLoop_cycle_update:
  assumes "protocol_inv s" and "RunLoop_cycle_update_step creations s = Some s'"
  shows "protocol_inv s'"
proof -
  from assms(2) have pc: "worker s = W_cycle_update"
    by (auto simp: RunLoop_cycle_update_step_def split: if_splits)
  show ?thesis
  proof (cases "renderUtil_Update creations s")
    case (Inl fd)
    obtain f d where fd: "fd = (f, d)" by (cases fd) auto
    from Inl fd have sc: "same_control s d" by (auto dest: renderUtil_Update_control_Inl)
    from assms(2) pc Inl fd have s': "s' = d\<lparr>worker := W_fault\<rparr>"
      by (simp add: RunLoop_cycle_update_step_def)
    from assms(1) sc have "protocol_inv d" by (simp add: inv_same_control)
    moreover from sc pc have "worker d = W_cycle_update" by (simp add: same_control_def)
    ultimately show ?thesis unfolding s'
      by (clarsimp simp: protocol_inv_def region_defs)
  next
    case (Inr d)
    then have sc: "same_control s d" by (auto dest: renderUtil_Update_control_Inr)
    from assms(2) pc Inr have s': "s' = d\<lparr>worker := (if activeSensors d \<noteq> [] then W_cycle_mask
                                    else W_cycle_complete)\<rparr>"
      by (simp add: RunLoop_cycle_update_step_def)
    from assms(1) sc have "protocol_inv d" by (simp add: inv_same_control)
    moreover from sc pc have "worker d = W_cycle_update" by (simp add: same_control_def)
    ultimately show ?thesis unfolding s'
      by (clarsimp simp: protocol_inv_def region_defs)
  qed
qed


lemma inv_RunLoop_cycle_mask:
  "protocol_inv s \<Longrightarrow> RunLoop_cycle_mask_step delta s = Some s' \<Longrightarrow> protocol_inv s'"
  by (clarsimp simp: protocol_inv_def RunLoop_cycle_mask_step_def region_defs
      split: if_splits)


lemma inv_RunLoop_cycle_publish:
  "protocol_inv s \<Longrightarrow> RunLoop_cycle_publish_step nexts s = Some s' \<Longrightarrow> protocol_inv s'"
  by (clarsimp simp: protocol_inv_def RunLoop_cycle_publish_step_def region_defs
      split: if_splits sum.splits)


lemma inv_RunLoop_cycle_complete:
  "protocol_inv s \<Longrightarrow> RunLoop_cycle_complete_step s = Some s' \<Longrightarrow> protocol_inv s'"
  by (clarsimp simp: protocol_inv_def RunLoop_cycle_complete_step_def region_defs
      split: if_splits)


lemma inv_RunLoop_cycle_notify:
  assumes "protocol_inv s" and "RunLoop_cycle_notify_step who s = Some s'"
  shows "protocol_inv s'"
proof -
  from assms(2) have pc: "worker s = W_cycle_notify"
    and n: "notify_one who (s\<lparr>worker := W_cycle_cond\<rparr>) = Some s'"
    by (auto simp: RunLoop_cycle_notify_step_def split: if_splits)
  from assms(1) pc have "protocol_inv (s\<lparr>worker := W_cycle_cond\<rparr>)"
    by (clarsimp simp: protocol_inv_def region_defs)
  with inv_notify_one[OF n] show ?thesis by simp
qed


lemma inv_Spurious_wakeup:
  "protocol_inv s \<Longrightarrow> Spurious_wakeup_step who s = Some s' \<Longrightarrow> protocol_inv s'"
  by (auto simp: Spurious_wakeup_step_def inv_wake split: if_splits)

lemmas inv_steps = inv_Configure inv_Stop_set inv_Stop_notify inv_Stop_join
  inv_PostUpdate_enter inv_PostUpdate_request_init inv_PostUpdate_notify_init
  inv_PostUpdate_check inv_PostUpdate_selection inv_PostUpdate_submit
  inv_RunLoop_init_cond inv_RunLoop_init_wait inv_RunLoop_init_body
  inv_RunLoop_init_done inv_RunLoop_cycle_cond inv_RunLoop_cycle_wait
  inv_RunLoop_cycle_update inv_RunLoop_cycle_mask inv_RunLoop_cycle_publish
  inv_RunLoop_cycle_complete inv_RunLoop_cycle_notify inv_Spurious_wakeup

lemma inv_step: "protocol_inv s \<Longrightarrow> step a s = Some s' \<Longrightarrow> protocol_inv s'"
  by (cases a; simp; (rule inv_steps, assumption, assumption))

lemma reachable_inv: "reachable s \<Longrightarrow> protocol_inv s"
proof (induction rule: reachable.induct)
  case reachable_init
  show ?case by (rule inv_init)
next
  case (reachable_step s a s')
  then show ?case by (blast intro: inv_step)
qed

section \<open>Example runs, evaluated\<close>

lemmas step_defs = Configure_step_def Stop_set_step_def Stop_notify_step_def Stop_join_step_def
  PostUpdate_enter_step_def PostUpdate_request_init_step_def PostUpdate_notify_init_step_def
  PostUpdate_check_step_def PostUpdate_selection_step_def PostUpdate_submit_step_def
  RunLoop_init_cond_step_def RunLoop_init_wait_step_def RunLoop_init_body_step_def
  RunLoop_init_done_step_def RunLoop_cycle_cond_step_def RunLoop_cycle_wait_step_def
  RunLoop_cycle_update_step_def RunLoop_cycle_mask_step_def RunLoop_cycle_publish_step_def
  RunLoop_cycle_complete_step_def RunLoop_cycle_notify_step_def Spurious_wakeup_step_def


lemma run_initialized: "run trace_initialized init_system = Some state_initialized"
  by (simp add: trace_initialized_def state_initialized_def init_system_def step_defs
      mutex_free_def notify_one_def waiting_def wake_def)

lemma run_created: "run trace_created state_initialized = Some state_created"
  by (simp add: trace_created_def state_created_def state_initialized_def init_system_def
      step_defs mutex_free_def notify_one_def waiting_def wake_def PostUpdate_select_def
      CreateSensor_def camera_sdf_def Manager_CreateSensor_def insort_insert_key_def
      dynamic_cast_def deref_def NO_SENSOR_def camera_A_def camera_A_bound_def)

lemmas eval_defs = init_system_def step_defs mutex_free_def notify_one_def notify_all_def
  waiting_def wake_def PostUpdate_select_def select_body_def dynamic_cast_def deref_def
  camera_A_def camera_A_bound_def

lemma run_select1: "run trace_select1 state_created = Some state_selected"
  by (simp add: trace_select1_def state_selected_def state_created_def state_initialized_def
      eval_defs)

lemma step_submit1: "step (PostUpdate_submit Worker) state_selected = Some state_submitted"
  by (simp add: state_selected_def state_submitted_def state_created_def
      state_initialized_def eval_defs)

lemma run_select2: "run trace_select2 state_submitted = Some state_reselect"
  by (simp add: trace_select2_def state_reselect_def state_submitted_def state_created_def
      state_initialized_def eval_defs)

lemma reachable_run: "reachable s \<Longrightarrow> run as s = Some s' \<Longrightarrow> reachable s'"
proof (induction as arbitrary: s)
  case Nil
  then show ?case by simp
next
  case (Cons a as)
  then show ?case
    by (auto split: option.splits intro: reachable_step)
qed

lemma reachable_initialized: "reachable state_initialized"
  using reachable_init run_initialized by (rule reachable_run)

lemma reachable_created: "reachable state_created"
  using reachable_initialized run_created by (rule reachable_run)

lemma reachable_selected: "reachable state_selected"
  using reachable_created run_select1 by (rule reachable_run)

lemma reachable_submitted: "reachable state_submitted"
  using reachable_selected step_submit1 by (rule reachable_step)

lemma reachable_reselect: "reachable state_reselect"
  using reachable_submitted run_select2 by (rule reachable_run)

lemma wake_more_fields:
  "sensorMask (wake who s) = sensorMask s"
  "scene (wake who s) = scene s"
  "stopper (wake who s) = stopper s"
  "joined (wake who s) = joined s"
  by (simp_all add: wake_def split: thread.splits)

lemma notify_one_fields:
  assumes "notify_one who s = Some s'"
  shows "submitted s' = submitted s" "consumed s' = consumed s"
    "updateAvailable s' = updateAvailable s" "updateTime s' = updateTime s"
    "activeSensors s' = activeSensors s" "initialized s' = initialized s"
    "running s' = running s" "cycle_taken s' = cycle_taken s"
  using assms by (auto simp: notify_one_def wake_fields wake_regions split: if_splits)

lemma step_submitted:
  assumes "step a s = Some s'" and "submitted s' \<noteq> submitted s"
  shows "(\<exists>who. a = PostUpdate_submit who) \<and> producer s = P_submit_lock \<and> mutex_free s \<and>
         running s \<and> \<not> updateAvailable s \<and> updateAvailable s' \<and>
         submitted s' = submitted s @ [(updateTime s', activeSensors s')]"
proof (cases a)
  case (PostUpdate_submit who)
  with assms(1) have st: "PostUpdate_submit_step who s = Some s'" by simp
  then have pc: "producer s = P_submit_lock" and free: "mutex_free s"
    by (auto simp: PostUpdate_submit_step_def split: if_splits)
  show ?thesis
  proof (cases "running s \<and> \<not> updateAvailable s")
    case False
    with st pc free assms(2) show ?thesis
      by (auto simp: PostUpdate_submit_step_def split: if_splits)
  next
    case True
    let ?m = "s\<lparr>activeSensors := activeSensors_local s, updateTime := t_local s,
                updateAvailable := True,
                submitted := submitted s @ [(t_local s, activeSensors_local s)],
                producer := P_idle\<rparr>"
    from st pc free True have n: "notify_one who ?m = Some s'"
      by (simp add: PostUpdate_submit_step_def)
    from notify_one_fields[OF n] PostUpdate_submit pc free True show ?thesis by simp
  qed
next
  case (RunLoop_cycle_update creations)
  with assms(1) have st: "RunLoop_cycle_update_step creations s = Some s'" by simp
  have "submitted s' = submitted s"
  proof (cases "renderUtil_Update creations s")
    case (Inl fd)
    obtain f d where fd: "fd = (f, d)" by (cases fd) auto
    from Inl fd have "same_control s d" by (auto dest: renderUtil_Update_control_Inl)
    with st Inl fd show ?thesis
      by (auto simp: RunLoop_cycle_update_step_def same_control_def split: if_splits)
  next
    case (Inr d)
    then have "same_control s d" by (auto dest: renderUtil_Update_control_Inr)
    with st Inr show ?thesis
      by (auto simp: RunLoop_cycle_update_step_def same_control_def split: if_splits)
  qed
  with assms(2) show ?thesis by simp
qed (use assms in \<open>auto simp: step_defs notify_all_def wake_fields
      split: if_splits sum.splits prod.splits dest: notify_one_fields\<close>)


lemma step_consumed:
  assumes "step a s = Some s'" and "consumed s' \<noteq> consumed s"
  shows "a = RunLoop_cycle_wait \<and> worker s = W_cycle_lock \<and> mutex_free s \<and> running s \<and>
         updateAvailable s \<and> consumed s' = consumed s @ [(updateTime s, activeSensors s)]"
proof (cases a)
  case (RunLoop_cycle_update creations)
  with assms(1) have st: "RunLoop_cycle_update_step creations s = Some s'" by simp
  have "consumed s' = consumed s"
  proof (cases "renderUtil_Update creations s")
    case (Inl fd)
    obtain f d where fd: "fd = (f, d)" by (cases fd) auto
    from Inl fd have "same_control s d" by (auto dest: renderUtil_Update_control_Inl)
    with st Inl fd show ?thesis
      by (auto simp: RunLoop_cycle_update_step_def same_control_def split: if_splits)
  next
    case (Inr d)
    then have "same_control s d" by (auto dest: renderUtil_Update_control_Inr)
    with st Inr show ?thesis
      by (auto simp: RunLoop_cycle_update_step_def same_control_def split: if_splits)
  qed
  with assms(2) show ?thesis by simp
qed (use assms in \<open>auto simp: step_defs notify_all_def wake_fields
      split: if_splits sum.splits prod.splits dest: notify_one_fields\<close>)

lemma step_reset:
  assumes "step a s = Some s'" and "updateAvailable s" and "\<not> updateAvailable s'"
  shows "(a = RunLoop_cycle_complete \<and> worker s = W_cycle_complete) \<or>
         ((\<exists>who. a = RunLoop_init_done who) \<and> worker s = W_init_locked)"
proof (cases a)
  case (RunLoop_cycle_update creations)
  with assms(1) have st: "RunLoop_cycle_update_step creations s = Some s'" by simp
  have "updateAvailable s' = updateAvailable s"
  proof (cases "renderUtil_Update creations s")
    case (Inl fd)
    obtain f d where fd: "fd = (f, d)" by (cases fd) auto
    from Inl fd have "same_control s d" by (auto dest: renderUtil_Update_control_Inl)
    with st Inl fd show ?thesis
      by (auto simp: RunLoop_cycle_update_step_def same_control_def split: if_splits)
  next
    case (Inr d)
    then have "same_control s d" by (auto dest: renderUtil_Update_control_Inr)
    with st Inr show ?thesis
      by (auto simp: RunLoop_cycle_update_step_def same_control_def split: if_splits)
  qed
  with assms(2,3) show ?thesis by simp
qed (use assms in \<open>auto simp: step_defs notify_all_def wake_fields
      split: if_splits sum.splits prod.splits dest: notify_one_fields\<close>)

lemma run_cycle: "run trace_cycle state_submitted = Some state_processed"
  by (simp add: trace_cycle_def state_processed_def state_submitted_def state_created_def
      state_initialized_def eval_defs delta_ns_def)

lemma reachable_processed: "reachable state_processed"
  using reachable_submitted run_cycle by (rule reachable_run)

lemma step_complete:
  "step RunLoop_cycle_complete state_processed =
     Some (state_processed\<lparr>updateAvailable := False, worker := W_cycle_notify\<rparr>)"
  by (simp add: state_processed_def RunLoop_cycle_complete_step_def)

section \<open>Properties of the protocol\<close>

text \<open>
  C1 (single-flight handoff). In every reachable state the cycles submitted so far are the
  cycles the render thread has taken, in the same order, followed by the pending cycle if
  there is one: at most one cycle is pending, none is lost and none is overtaken. A step
  installs a cycle only when \<open>updateAvailable\<close> is false, the render thread is not at
  work on a cycle and every cycle submitted before has been taken; \<open>updateAvailable\<close> is
  reset from true only by the render thread when it completes a cycle; and a producer that
  comes to submit while \<open>updateAvailable\<close> is set (and the system runs) goes
  into the wait of line 279 and installs nothing.
\<close>

theorem single_flight:
  assumes "reachable s"
  shows "submitted s = consumed s @ pending s \<and>
         length (pending s) \<le> 1 \<and>
         (\<forall>a s'. step a s = Some s' \<longrightarrow>
            (submitted s' \<noteq> submitted s \<longrightarrow>
               \<not> updateAvailable s \<and> \<not> cycle_taken s \<and> consumed s = submitted s \<and>
               updateAvailable s' \<and>
               submitted s' = submitted s @ [(updateTime s', activeSensors s')]) \<and>
            (updateAvailable s \<and> \<not> updateAvailable s' \<longrightarrow>
               a = RunLoop_cycle_complete \<and> consumed s = submitted s)) \<and>
         (\<forall>who. producer s = P_submit_lock \<and> mutex_free s \<and> running s \<and> updateAvailable s \<longrightarrow>
            step (PostUpdate_submit who) s = Some (s\<lparr>producer := P_submit_waiting\<rparr>))"
proof -
  from assms have inv: "protocol_inv s" by (rule reachable_inv)
  then have hist: "submitted s = consumed s @ pending s"
    by (simp add: protocol_inv_def)
  have len: "length (pending s) \<le> 1"
    by (simp add: pending_def)
  have install: "\<not> updateAvailable s \<and> \<not> cycle_taken s \<and> consumed s = submitted s \<and>
      updateAvailable s' \<and> submitted s' = submitted s @ [(updateTime s', activeSensors s')]"
    if "step a s = Some s'" and "submitted s' \<noteq> submitted s" for a s'
  proof -
    from step_submitted[OF that]
    have f: "mutex_free s" "\<not> updateAvailable s" "updateAvailable s'"
      "submitted s' = submitted s @ [(updateTime s', activeSensors s')]"
      by simp_all
    from f(1) have "\<not> cycle_taken s" by (simp add: mutex_free_def cycle_taken_def)
    moreover from hist f(2) have "consumed s = submitted s" by (simp add: pending_def)
    ultimately show ?thesis using f by simp
  qed
  have reset: "a = RunLoop_cycle_complete \<and> consumed s = submitted s"
    if "step a s = Some s'" and "updateAvailable s" and "\<not> updateAvailable s'" for a s'
  proof -
    from inv that(2) have "worker s \<noteq> W_init_locked" by (auto simp: protocol_inv_def)
    with step_reset[OF that] have a: "a = RunLoop_cycle_complete" "worker s = W_cycle_complete"
      by auto
    from a(2) hist have "consumed s = submitted s"
      by (simp add: pending_def cycle_taken_def)
    with a show ?thesis by simp
  qed
  have blocked: "step (PostUpdate_submit who) s = Some (s\<lparr>producer := P_submit_waiting\<rparr>)"
    if "producer s = P_submit_lock \<and> mutex_free s \<and> running s \<and> updateAvailable s" for who
    using that by (simp add: PostUpdate_submit_step_def)
  from hist len install reset blocked show ?thesis by blast
qed

text \<open>
  In the example run: the producer that comes to submit at 2 ms while the cycle of 1 ms is
  pending has to wait; the cycle of 1 ms was installed when the one before it had been
  taken; and the render thread resets \<open>updateAvailable\<close> at line 185 with that cycle
  taken.
\<close>

theorem single_flight_witness:
  "submitted state_reselect = consumed state_reselect @ [(1 / 1000, [camera_A_bound])] \<and>
   step (PostUpdate_submit Worker) state_reselect =
     Some (state_reselect\<lparr>producer := P_submit_waiting\<rparr>) \<and>
   step (PostUpdate_submit Worker) state_selected = Some state_submitted \<and>
   consumed state_selected = submitted state_selected \<and>
   submitted state_submitted = submitted state_selected @ [(1 / 1000, [camera_A_bound])] \<and>
   step RunLoop_cycle_complete state_processed =
     Some (state_processed\<lparr>updateAvailable := False, worker := W_cycle_notify\<rparr>) \<and>
   consumed state_processed = submitted state_processed"
proof -
  have pc: "producer state_reselect = P_submit_lock \<and> mutex_free state_reselect \<and>
            running state_reselect \<and> updateAvailable state_reselect"
    by (simp add: state_reselect_def state_submitted_def state_created_def
        state_initialized_def init_system_def mutex_free_def)
  have p: "pending state_reselect = [(1 / 1000, [camera_A_bound])]"
    by (simp add: pending_def cycle_taken_def state_reselect_def state_submitted_def
        state_created_def state_initialized_def init_system_def)
  have ch: "submitted state_submitted \<noteq> submitted state_selected"
    by (simp add: state_submitted_def state_selected_def state_created_def)
  have f: "updateTime state_submitted = 1 / 1000"
    "activeSensors state_submitted = [camera_A_bound]"
    by (simp_all add: state_submitted_def)
  have u: "updateAvailable state_processed \<and>
           \<not> updateAvailable (state_processed\<lparr>updateAvailable := False,
                                                worker := W_cycle_notify\<rparr>)"
    by (simp add: state_processed_def state_submitted_def)
  from single_flight[OF reachable_reselect] pc p
  have 1: "submitted state_reselect = consumed state_reselect @ [(1 / 1000, [camera_A_bound])]"
    and 2: "step (PostUpdate_submit Worker) state_reselect =
              Some (state_reselect\<lparr>producer := P_submit_waiting\<rparr>)"
    by simp_all
  from single_flight[OF reachable_selected] step_submit1 ch f
  have 3: "consumed state_selected = submitted state_selected"
    and 4: "submitted state_submitted = submitted state_selected @ [(1 / 1000, [camera_A_bound])]"
    by metis+
  from single_flight[OF reachable_processed] step_complete u
  have 5: "consumed state_processed = submitted state_processed"
    by blast
  from 1 2 3 4 5 step_submit1 step_complete show ?thesis by simp
qed

lemma run_lost_wakeup: "run trace_lost_wakeup init_system = Some state_lost_wakeup"
  by (simp add: trace_lost_wakeup_def state_lost_wakeup_def eval_defs)

lemma run_request: "run trace_request init_system = Some state_second_step"
  by (simp add: trace_request_def state_second_step_def eval_defs)

lemma run_requesting: "run [Configure, PostUpdate_enter 0 True] init_system = Some state_requesting"
  by (simp add: state_requesting_def eval_defs)



text \<open>
  C9 (init before cycle). In every reachable state, a step that installs a cycle starts
  from a state with \<open>initialized\<close> set, and so does a step in which the render thread
  takes a cycle (with the one initialization done); the render thread is inside its
  second loop, and \<open>updateAvailable\<close> is set, only when \<open>initialized\<close> is set.
\<close>

theorem init_before_cycle:
  assumes "reachable s" and "step a s = Some s'"
  shows "(submitted s' \<noteq> submitted s \<longrightarrow> initialized s) \<and>
         (consumed s' \<noteq> consumed s \<longrightarrow> initialized s \<and> renderInits s = 1) \<and>
         (in_cycle_loop s \<longrightarrow> initialized s) \<and>
         (updateAvailable s \<longrightarrow> initialized s)"
proof -
  from assms(1) have inv: "protocol_inv s" by (rule reachable_inv)
  have 1: "initialized s" if "submitted s' \<noteq> submitted s"
  proof -
    from step_submitted[OF assms(2) that] have "in_submission s"
      by (simp add: in_submission_def)
    with inv show ?thesis by (simp add: protocol_inv_def)
  qed
  have 2: "initialized s \<and> renderInits s = 1" if "consumed s' \<noteq> consumed s"
  proof -
    from step_consumed[OF assms(2) that] have "in_cycle_loop s"
      by (simp add: in_cycle_loop_def)
    with inv show ?thesis by (simp add: protocol_inv_def)
  qed
  from inv have 3: "in_cycle_loop s \<longrightarrow> initialized s" and 4: "updateAvailable s \<longrightarrow> initialized s"
    by (simp_all add: protocol_inv_def)
  from 1 2 3 4 show ?thesis by blast
qed

text \<open>
  In the example run the render thread takes the cycle of 1 ms, and the producer installed
  it, with \<open>initialized\<close> set.
\<close>

theorem init_before_cycle_witness:
  "step RunLoop_cycle_wait state_reselect =
     Some (state_reselect\<lparr>consumed := [(0, []), (1 / 1000, [camera_A_bound])],
                          worker := W_cycle_update\<rparr>) \<and>
   initialized state_reselect \<and> renderInits state_reselect = 1 \<and>
   step (PostUpdate_submit Worker) state_selected = Some state_submitted \<and>
   initialized state_selected"
proof -
  have st: "step RunLoop_cycle_wait state_reselect =
     Some (state_reselect\<lparr>consumed := [(0, []), (1 / 1000, [camera_A_bound])],
                          worker := W_cycle_update\<rparr>)"
    by (simp add: state_reselect_def state_submitted_def state_created_def
        state_initialized_def eval_defs)
  have ch: "consumed (state_reselect\<lparr>consumed := [(0, []), (1 / 1000, [camera_A_bound])],
                          worker := W_cycle_update\<rparr>) \<noteq> consumed state_reselect"
    by (simp add: state_reselect_def state_submitted_def state_created_def)
  have ch2: "submitted state_submitted \<noteq> submitted state_selected"
    by (simp add: state_submitted_def state_selected_def state_created_def)
  from init_before_cycle[OF reachable_reselect st] ch
  have 1: "initialized state_reselect \<and> renderInits state_reselect = 1" by blast
  from init_before_cycle[OF reachable_selected step_submit1] ch2
  have 2: "initialized state_selected" by blast
  from st 1 2 step_submit1 show ?thesis by simp
qed

text \<open>
  C8 (lazy one-time initialization). \<open>renderInits\<close> counts the executions of lines 124
  and 125. In every reachable state it is at most 1, it is 1 exactly when
  \<open>initialized\<close> is set, and then some step has seen a rendering component.
\<close>

theorem lazy_initialization:
  assumes "reachable s"
  shows "renderInits s \<le> 1 \<and>
         (initialized s \<longleftrightarrow> renderInits s = 1) \<and>
         (renderInits s = 1 \<longrightarrow> sawRendering s)"
proof -
  from assms have "protocol_inv s" by (rule reachable_inv)
  then show ?thesis by (auto simp: protocol_inv_def split: if_splits)
qed

text \<open>
  After the initialization of the example run the count is 1; in the run that stops
  without a rendering sensor it is 0.
\<close>

theorem lazy_initialization_witness:
  "renderInits state_initialized = 1 \<and> initialized state_initialized \<and>
   sawRendering state_initialized \<and>
   renderInits state_lost_wakeup = 0 \<and> \<not> initialized state_lost_wakeup"
proof -
  have a: "renderInits state_initialized = 1"
    by (simp add: state_initialized_def)
  have b: "renderInits state_lost_wakeup \<noteq> 1"
    by (simp add: state_lost_wakeup_def init_system_def)
  have r: "reachable state_lost_wakeup"
    using reachable_init run_lost_wakeup by (rule reachable_run)
  from lazy_initialization[OF reachable_initialized] a
  have 1: "initialized state_initialized \<and> sawRendering state_initialized" by simp
  from lazy_initialization[OF r] b
  have 2: "renderInits state_lost_wakeup = 0 \<and> \<not> initialized state_lost_wakeup" by simp
  from a 1 2 show ?thesis by simp
qed

text \<open>
  C3 (the init request blocks until acknowledged), as stated, fails: the first step sees a
  rendering component, sets \<open>doInit\<close>, notifies and returns, and the producer enters
  its next step at time 1 while the render thread has not initialized.
\<close>

theorem request_init_counterexample:
  "run trace_request init_system = Some state_second_step \<and>
   t_local state_second_step = 1 \<and>
   \<not> initialized state_second_step \<and>
   scene state_second_step = None \<and>
   renderInits state_second_step = 0"
  using run_request by (simp add: state_second_step_def init_system_def)

text \<open>The wait of line 229 is never entered: its predicate holds whenever it is tested.\<close>

lemma not_init_waiting_step:
  assumes "protocol_inv s" and "producer s \<noteq> P_init_waiting" and "step a s = Some s'"
  shows "producer s' \<noteq> P_init_waiting"
proof (cases a)
  case PostUpdate_request_init
  with assms(3) have st: "PostUpdate_request_init_step s = Some s'" by simp
  then have "producer s = P_init_lock"
    by (auto simp: PostUpdate_request_init_step_def split: if_splits)
  then have "in_init_request s" by (simp add: in_init_request_def)
  with assms(1) have "\<not> updateAvailable s" by (simp add: protocol_inv_def)
  with st show ?thesis
    by (auto simp: PostUpdate_request_init_step_def split: if_splits)
next
  case (RunLoop_cycle_update creations)
  with assms(3) have st: "RunLoop_cycle_update_step creations s = Some s'" by simp
  have "producer s' = producer s"
  proof (cases "renderUtil_Update creations s")
    case (Inl fd)
    obtain f d where fd: "fd = (f, d)" by (cases fd) auto
    from Inl fd have "same_control s d" by (auto dest: renderUtil_Update_control_Inl)
    with st Inl fd show ?thesis
      by (auto simp: RunLoop_cycle_update_step_def same_control_def split: if_splits)
  next
    case (Inr d)
    then have "same_control s d" by (auto dest: renderUtil_Update_control_Inr)
    with st Inr show ?thesis
      by (auto simp: RunLoop_cycle_update_step_def same_control_def split: if_splits)
  qed
  with assms(2) show ?thesis by simp
qed (use assms(2,3) in \<open>auto simp: step_defs notify_all_def notify_one_def wake_def
      split: if_splits sum.splits prod.splits thread.splits\<close>)

lemma reachable_not_init_waiting: "reachable s \<Longrightarrow> producer s \<noteq> P_init_waiting"
proof (induction rule: reachable.induct)
  case reachable_init
  show ?case by (simp add: init_system_def)
next
  case (reachable_step s a s')
  from reachable_step.hyps(1) have "protocol_inv s" by (rule reachable_inv)
  from this reachable_step.IH reachable_step.hyps(2) show ?case
    by (rule not_init_waiting_step)
qed

lemma run_request_blocked:
  "run trace_request_blocked init_system = Some state_request_blocked"
  by (simp add: trace_request_blocked_def state_request_blocked_def eval_defs)

lemma run_request_resumed:
  "run trace_request_resumed state_request_blocked = Some state_request_selecting"
  by (simp add: trace_request_resumed_def state_request_selecting_def
      state_request_blocked_def eval_defs)

text \<open>
  C3, as amended. The init request waits for the mutex and for nothing else. In every
  reachable state the producer is not in the wait of line 229; a producer at line 228
  goes on exactly when the mutex is free, and then sets \<open>doInit\<close> and goes on to
  notify, whatever \<open>initialized\<close> is; it is held up exactly while the render thread
  holds the mutex. So the request returns before the initialization when the mutex is
  free, and after it when the render thread holds the mutex through lines 118 to 131.
  And the producer is in its selection or submission only when \<open>initialized\<close> is set.
\<close>

theorem request_init_returns:
  assumes "reachable s"
  shows "producer s \<noteq> P_init_waiting \<and>
         (producer s = P_init_lock \<longrightarrow>
            (if mutex_free s
             then step PostUpdate_request_init s =
                    Some (s\<lparr>doInit := True, producer := P_init_notify\<rparr>)
             else step PostUpdate_request_init s = None)) \<and>
         (in_submission s \<longrightarrow> initialized s)"
proof -
  from assms have inv: "protocol_inv s" by (rule reachable_inv)
  from assms have nw: "producer s \<noteq> P_init_waiting" by (rule reachable_not_init_waiting)
  have 1: "step PostUpdate_request_init s =
             Some (s\<lparr>doInit := True, producer := P_init_notify\<rparr>)"
    if "producer s = P_init_lock" and "mutex_free s"
  proof -
    from that(1) have "in_init_request s" by (simp add: in_init_request_def)
    with inv have "\<not> updateAvailable s" by (simp add: protocol_inv_def)
    with that show ?thesis by (simp add: PostUpdate_request_init_step_def)
  qed
  have 2: "step PostUpdate_request_init s = None" if "\<not> mutex_free s"
    using that by (simp add: PostUpdate_request_init_step_def)
  from inv have 3: "in_submission s \<longrightarrow> initialized s"
    by (simp add: protocol_inv_def)
  from nw 1 2 3 show ?thesis by simp
qed

text \<open>
  The first request of a run finds the mutex free and returns with \<open>initialized\<close>
  false. The request of \<open>state_request_blocked\<close> is held up by the render thread, which
  has just initialized, and goes on to the selection when the mutex is free again.
\<close>

theorem request_init_returns_witness:
  "step PostUpdate_request_init state_requesting =
     Some (state_requesting\<lparr>doInit := True, producer := P_init_notify\<rparr>) \<and>
   \<not> initialized state_requesting \<and>
   step PostUpdate_request_init state_request_blocked = None \<and>
   run trace_request_resumed state_request_blocked = Some state_request_selecting \<and>
   initialized state_request_selecting"
proof -
  have r1: "reachable state_requesting"
    using reachable_init run_requesting by (rule reachable_run)
  have r2: "reachable state_request_blocked"
    using reachable_init run_request_blocked by (rule reachable_run)
  have r3: "reachable state_request_selecting"
    using r2 run_request_resumed by (rule reachable_run)
  have h1: "producer state_requesting = P_init_lock \<and> mutex_free state_requesting \<and>
            \<not> initialized state_requesting"
    by (simp add: state_requesting_def init_system_def mutex_free_def)
  have h2: "producer state_request_blocked = P_init_lock \<and> \<not> mutex_free state_request_blocked"
    by (simp add: state_request_blocked_def init_system_def mutex_free_def)
  have h3: "in_submission state_request_selecting"
    by (simp add: state_request_selecting_def in_submission_def)
  from request_init_returns[OF r1] h1
  have 1: "step PostUpdate_request_init state_requesting =
     Some (state_requesting\<lparr>doInit := True, producer := P_init_notify\<rparr>)"
    by simp
  from request_init_returns[OF r2] h2
  have 2: "step PostUpdate_request_init state_request_blocked = None"
    by simp
  from request_init_returns[OF r3] h3
  have 3: "initialized state_request_selecting"
    by simp
  from 1 2 3 h1 run_request_resumed show ?thesis by simp
qed

lemma stuck_step:
  assumes "stuck s" and "quiet a" and "step a s = Some s'"
  shows "stuck s'"
  using assms
  by (cases a)
    (auto simp: stuck_def step_defs joinable_def mutex_free_def waiting_def
      split: if_splits thread.splits)

lemma stuck_run: "stuck s \<Longrightarrow> list_all quiet as \<Longrightarrow> run as s = Some s' \<Longrightarrow> stuck s'"
proof (induction as arbitrary: s)
  case Nil
  then show ?case by simp
next
  case (Cons a as)
  from Cons.prems obtain s1 where s1: "step a s = Some s1" and rest: "run as s1 = Some s'"
    by (auto split: option.splits)
  from Cons.prems(1,2) s1 have "stuck s1" by (auto intro: stuck_step)
  with Cons.IH rest Cons.prems(2) show ?case by simp
qed

text \<open>
  C2 (stop correctness) fails in the code. The render thread reads \<open>running\<close> at line
  114, \<open>Stop\<close> then clears the flag and notifies while no thread waits, and the render
  thread goes into the wait of line 118, which has no predicate. No rendering component
  has been seen. From there on, whatever quiet actions are run, the render thread stays in
  that wait and \<open>Stop\<close> stays in \<open>join\<close>.
\<close>

theorem Stop_lost_wakeup:
  "run trace_lost_wakeup init_system = Some state_lost_wakeup \<and>
   \<not> sawRendering state_lost_wakeup \<and>
   (\<forall>as s. list_all quiet as \<and> run as state_lost_wakeup = Some s \<longrightarrow>
      worker s = W_init_waiting \<and> stopper s = S_join \<and> step Stop_join s = None)"
proof -
  have st: "stuck state_lost_wakeup"
    by (simp add: stuck_def state_lost_wakeup_def init_system_def)
  have "worker s = W_init_waiting \<and> stopper s = S_join \<and> step Stop_join s = None"
    if "list_all quiet as \<and> run as state_lost_wakeup = Some s" for as s
  proof -
    from that st have "stuck s" by (auto intro: stuck_run)
    then show ?thesis by (simp add: stuck_def Stop_join_step_def joinable_def)
  qed
  moreover have "\<not> sawRendering state_lost_wakeup"
    by (simp add: state_lost_wakeup_def init_system_def)
  ultimately show ?thesis using run_lost_wakeup by blast
qed

text \<open>A further step of the simulation without rendering components changes nothing.\<close>

theorem Stop_lost_wakeup_witness:
  "run [PostUpdate_enter 1 False, PostUpdate_check] state_lost_wakeup =
     Some (state_lost_wakeup\<lparr>t_local := 1\<rparr>) \<and>
   worker (state_lost_wakeup\<lparr>t_local := 1\<rparr>) = W_init_waiting \<and>
   stopper (state_lost_wakeup\<lparr>t_local := 1\<rparr>) = S_join \<and>
   step Stop_join (state_lost_wakeup\<lparr>t_local := 1\<rparr>) = None"
proof -
  have q: "list_all quiet [PostUpdate_enter 1 False, PostUpdate_check]" by simp
  have r: "run [PostUpdate_enter 1 False, PostUpdate_check] state_lost_wakeup =
     Some (state_lost_wakeup\<lparr>t_local := 1\<rparr>)"
    by (simp add: state_lost_wakeup_def eval_defs)
  from Stop_lost_wakeup q r show ?thesis by blast
qed

lemma invalid_not_selected:
  assumes "dynamic_cast (mgr i) = None"
  shows "\<exists>sel m m'.
           PostUpdate_select t mgr ids smask = Inr (sel, m) \<and>
           PostUpdate_select t mgr (removeAll i ids) smask = Inr (sel, m')"
proof -
  have "due_handle t mgr smask i = None"
    unfolding due_handle_def assms by (simp split: option.splits)
  then show ?thesis
    by (simp add: PostUpdate_select_def select_loop_closed map_filter_removeAll)
qed

text \<open>
  C10 (the selector tolerates invalid registry entries). When the manager stores no
  rendering sensor under the id it returns, \<open>CreateSensor\<close> has put the id into the
  registry before it reads through the null pointer. And whenever the manager holds no
  rendering sensor under that id, the selection of a step, over any registry, returns
  without a fault and selects exactly what it selects with the id removed from the
  registry.
\<close>

theorem selector_tolerates_failed_creation:
  assumes "sdf_Type sdf \<noteq> NONE"
    and "dynamic_cast (Manager_CreateSensor made (sensorManager d) (fst made)) = None"
  shows "\<exists>d'. CreateSensor sdf parentName made d = Inl (NullPointerDereference, d') \<and>
              fst made \<in> set (sensorIds d') \<and>
              dynamic_cast (sensorManager d' (fst made)) = None \<and>
              (\<forall>t mgr ids smask.
                 dynamic_cast (mgr (fst made)) = None \<longrightarrow>
                 (\<exists>sel m m'.
                    PostUpdate_select t mgr ids smask = Inr (sel, m) \<and>
                    PostUpdate_select t mgr (removeAll (fst made) ids) smask = Inr (sel, m')))"
proof -
  let ?d1 = "d\<lparr>sensorManager := Manager_CreateSensor made (sensorManager d)\<rparr>"
  let ?d2 = "?d1\<lparr>sensorIds := insort_insert (fst made) (sensorIds ?d1)\<rparr>"
  let ?d3 = "(if (case sensorManager ?d1 (fst made) of None \<Rightarrow> True
                  | Some s \<Rightarrow> NO_SENSOR = Id_of s)
              then ?d2\<lparr>errlog := errlog ?d2 @
                          [''Failed to create sensor ['' @ sdf_Name sdf @ '']'']\<rparr>
              else ?d2)"
  from assms have c: "CreateSensor sdf parentName made d = Inl (NullPointerDereference, ?d3)"
    by (simp add: CreateSensor_def Let_def deref_def)
  have i: "fst made \<in> set (sensorIds ?d3)"
    by (simp add: set_insort_insert)
  have mgr: "sensorManager ?d3 = Manager_CreateSensor made (sensorManager d)"
    by simp
  from assms(2) have n: "dynamic_cast (sensorManager ?d3 (fst made)) = None"
    unfolding mgr .
  from c i n invalid_not_selected show ?thesis by blast
qed

text \<open>An IMU, which is no rendering sensor, created under id 3 and due at time 0.\<close>

theorem selector_tolerates_failed_creation_witness:
  "CreateSensor imu_sdf ''model'' (3, Some imu_C) init_system =
     Inl (NullPointerDereference, init_system\<lparr>sensorManager := [3 \<mapsto> imu_C], sensorIds := [3]\<rparr>) \<and>
   PostUpdate_select 0 [3 \<mapsto> imu_C] [3] Map.empty = Inr ([], Map.empty)"
proof -
  have t: "sdf_Type imu_sdf \<noteq> NONE" by (simp add: imu_sdf_def)
  have n: "dynamic_cast (Manager_CreateSensor (3, Some imu_C) (sensorManager init_system)
             (fst (3, Some imu_C))) = None"
    by (simp add: Manager_CreateSensor_def dynamic_cast_def imu_C_def)
  have c: "CreateSensor imu_sdf ''model'' (3, Some imu_C) init_system =
     Inl (NullPointerDereference, init_system\<lparr>sensorManager := [3 \<mapsto> imu_C], sensorIds := [3]\<rparr>)"
    by (simp add: CreateSensor_def imu_sdf_def Manager_CreateSensor_def init_system_def
        insort_insert_key_def dynamic_cast_def deref_def NO_SENSOR_def imu_C_def)
  have h: "dynamic_cast ([3 \<mapsto> imu_C] (fst (3 :: nat, Some imu_C))) = None"
    by (simp add: dynamic_cast_def imu_C_def)
  from selector_tolerates_failed_creation[OF t n, of "''model''"]
  have all: "\<forall>t mgr ids smask.
      dynamic_cast (mgr (fst (3 :: nat, Some imu_C))) = None \<longrightarrow>
      (\<exists>sel m m'.
         PostUpdate_select t mgr ids smask = Inr (sel, m) \<and>
         PostUpdate_select t mgr (removeAll (fst (3 :: nat, Some imu_C)) ids) smask =
           Inr (sel, m'))"
    by blast
  from all h
  have "\<exists>sel m m'.
      PostUpdate_select 0 [3 \<mapsto> imu_C] [3] Map.empty = Inr (sel, m) \<and>
      PostUpdate_select 0 [3 \<mapsto> imu_C] (removeAll (fst (3 :: nat, Some imu_C)) [3])
        Map.empty = Inr (sel, m')"
    by blast
  then obtain sel m m' where
    1: "PostUpdate_select 0 [3 \<mapsto> imu_C] [3] Map.empty = Inr (sel, m)" and
    2: "PostUpdate_select 0 [3 \<mapsto> imu_C] (removeAll 3 [3]) Map.empty = Inr (sel, m')"
    by auto
  from 2 have "sel = []" by (simp add: PostUpdate_select_def)
  moreover from 1 have "m = Map.empty"
    by (simp add: PostUpdate_select_def select_body_def dynamic_cast_def imu_C_def)
  ultimately show ?thesis using 1 c by simp
qed

end
